theory Spec2Isabelle
  imports Complex_Main "HOL-Library.Stream"
begin

section \<open>Python values, exceptions and containers\<close>

text \<open>
  The exceptions that the maze code can raise.  A computation that may raise returns a
  value of type \<open>error + 'a\<close>, with \<open>Inl\<close> for the exception.
\<close>

datatype error =
  AssertionError | IndexError | KeyError | TypeError | AttributeError | ValueError

definition bindE :: "error + 'a \<Rightarrow> ('a \<Rightarrow> error + 'b) \<Rightarrow> error + 'b" where
  "bindE m f = (case m of Inl e \<Rightarrow> Inl e | Inr x \<Rightarrow> f x)"

text \<open>A \<open>for\<close> loop over a list whose body may raise: the first exception ends the loop.\<close>

fun forE :: "'a list \<Rightarrow> ('a \<Rightarrow> 's \<Rightarrow> error + 's) \<Rightarrow> 's \<Rightarrow> error + 's" where
  "forE [] body s = Inr s"
| "forE (x # xs) body s = bindE (body x s) (forE xs body)"

text \<open>
  Python's \<open>xs[i]\<close>: an index in \<open>[-len, 0)\<close> counts from the end, an index outside
  \<open>[-len, len)\<close> raises IndexError.  \<open>py_index n i\<close> is the position that \<open>i\<close> selects in a
  list of length \<open>n\<close>.
\<close>

definition py_index :: "nat \<Rightarrow> int \<Rightarrow> error + nat" where
  "py_index n i =
     (if 0 \<le> i \<and> i < int n then Inr (nat i)
      else if - int n \<le> i \<and> i < 0 then Inr (nat (i + int n))
      else Inl IndexError)"

definition getitem :: "'a list \<Rightarrow> int \<Rightarrow> error + 'a" where
  "getitem xs i = bindE (py_index (length xs) i) (\<lambda>k. Inr (xs ! k))"

text \<open>\<open>xs.remove(x)\<close> deletes the first occurrence and raises ValueError when there is none.\<close>

definition list_remove :: "'a \<Rightarrow> 'a list \<Rightarrow> error + 'a list" where
  "list_remove x xs = (if x \<in> set xs then Inr (remove1 x xs) else Inl ValueError)"

section \<open>Cell\<close>

text \<open>
  A Cell object is identified by the coordinates it was created with: the class defines no
  equality of its own, so two cells are equal exactly when they are the same object, and a
  Grid creates one object per coordinate.  A reference to a cell is its position in the
  grid's list of rows.
\<close>

type_synonym cref = "nat \<times> nat"

text \<open>
  \<open>links\<close> holds the keys of the dictionary \<open>self.links\<close> in insertion order (every value
  is \<open>True\<close>).  \<open>cell_visited_attr\<close> says whether the instance attribute \<open>cell_visited\<close> has
  been assigned \<open>True\<close> (as \<open>aldous_broder\<close> does, shadowing the method of that name).
\<close>

record Cell =
  row :: nat
  column :: nat
  links :: "cref list"
  north :: "cref option"
  south :: "cref option"
  east :: "cref option"
  west :: "cref option"
  visit :: bool
  cell_visited_attr :: bool

definition Cell_init :: "nat \<Rightarrow> nat \<Rightarrow> Cell" where
  "Cell_init r c =
     \<lparr>row = r, column = c, links = [], north = None, south = None, east = None,
      west = None, visit = False, cell_visited_attr = False\<rparr>"

section \<open>Markup\<close>

text \<open>
  \<open>marks\<close> is the dictionary \<open>self.marks\<close> as an association list in insertion order, with
  distinct keys.  The reference \<open>self.grid\<close> is left out: only \<open>set_item_at\<close> and
  \<open>get_item_at\<close> read it, and they are not needed here.
\<close>

record 'v Markup =
  marks :: "(cref \<times> 'v) list"
  default_value :: 'v

definition Markup_init :: "'v \<Rightarrow> 'v Markup" where
  "Markup_init d = \<lparr>marks = [], default_value = d\<rparr>"

text \<open>
  \<open>Markup(grid)\<close>, with the argument \<open>default\<close> left out: the parameter's default value is
  the string of one blank.
\<close>

definition Markup_init_blank :: "string Markup" where
  "Markup_init_blank = Markup_init '' ''"

definition reset :: "'v Markup \<Rightarrow> 'v Markup" where
  "reset m = m\<lparr>marks := []\<rparr>"

text \<open>\<open>d[k] = v\<close> on a dictionary: an existing key keeps its place, a new key goes last.\<close>

fun dict_set :: "('k \<times> 'v) list \<Rightarrow> 'k \<Rightarrow> 'v \<Rightarrow> ('k \<times> 'v) list" where
  "dict_set [] k v = [(k, v)]"
| "dict_set ((k', v') # kvs) k v =
     (if k' = k then (k', v) # kvs else (k', v') # dict_set kvs k v)"

definition setitem :: "'v Markup \<Rightarrow> cref \<Rightarrow> 'v \<Rightarrow> 'v Markup" where
  "setitem m cell v = m\<lparr>marks := dict_set (marks m) cell v\<rparr>"

definition getitem_markup :: "'v Markup \<Rightarrow> cref \<Rightarrow> 'v" where
  "getitem_markup m cell =
     (case map_of (marks m) cell of None \<Rightarrow> default_value m | Some v \<Rightarrow> v)"

section \<open>Grid\<close>

text \<open>
  \<open>grid\<close> is the list of rows \<open>self.grid\<close>.  \<open>markup\<close> is the attribute \<open>self.markup\<close>, which
  exists only once \<open>set_markup\<close> has been called.
\<close>

record 'v Grid =
  num_rows :: nat
  num_columns :: nat
  grid :: "Cell list list"
  markup :: "'v Markup option"

definition deref :: "'v Grid \<Rightarrow> cref \<Rightarrow> Cell" where
  "deref g p = grid g ! fst p ! snd p"

definition upd_cell :: "cref \<Rightarrow> (Cell \<Rightarrow> Cell) \<Rightarrow> 'v Grid \<Rightarrow> 'v Grid" where
  "upd_cell p f g =
     g\<lparr>grid := (grid g)[fst p := (grid g ! fst p)[snd p := f (grid g ! fst p ! snd p)]]\<rparr>"

text \<open>The expression \<open>self.grid[r][c]\<close>.\<close>

definition grid_item :: "'v Grid \<Rightarrow> int \<Rightarrow> int \<Rightarrow> error + cref" where
  "grid_item g r c =
     bindE (py_index (length (grid g)) r) (\<lambda>i.
     bindE (py_index (length (grid g ! i)) c) (\<lambda>j. Inr (i, j)))"

definition cell_at :: "'v Grid \<Rightarrow> int \<Rightarrow> int \<Rightarrow> error + cref" where
  "cell_at g r c = grid_item g r c"

definition create_cells :: "nat \<Rightarrow> nat \<Rightarrow> Cell list list" where
  "create_cells nr nc = map (\<lambda>r. map (\<lambda>c. Cell_init r c) [0..<nc]) [0..<nr]"

definition connect_cell :: "cref \<Rightarrow> 'v Grid \<Rightarrow> error + 'v Grid" where
  "connect_cell p g0 =
     bindE (if int (row (deref g0 p)) - 1 \<ge> 0
            then bindE (grid_item g0 (int (row (deref g0 p)) - 1) (int (column (deref g0 p))))
                   (\<lambda>n. Inr (upd_cell p (\<lambda>c. c\<lparr>north := Some n\<rparr>) g0))
            else Inr g0) (\<lambda>g1.
     bindE (if int (row (deref g1 p)) + 1 < int (num_rows g1)
            then bindE (grid_item g1 (int (row (deref g1 p)) + 1) (int (column (deref g1 p))))
                   (\<lambda>n. Inr (upd_cell p (\<lambda>c. c\<lparr>south := Some n\<rparr>) g1))
            else Inr g1) (\<lambda>g2.
     bindE (if int (column (deref g2 p)) - 1 \<ge> 0
            then bindE (grid_item g2 (int (row (deref g2 p))) (int (column (deref g2 p)) - 1))
                   (\<lambda>n. Inr (upd_cell p (\<lambda>c. c\<lparr>west := Some n\<rparr>) g2))
            else Inr g2) (\<lambda>g3.
     if int (column (deref g3 p)) + 1 < int (num_columns g3)
     then bindE (grid_item g3 (int (row (deref g3 p))) (int (column (deref g3 p)) + 1))
            (\<lambda>n. Inr (upd_cell p (\<lambda>c. c\<lparr>east := Some n\<rparr>) g3))
     else Inr g3)))"

definition connect_cells :: "'v Grid \<Rightarrow> error + 'v Grid" where
  "connect_cells g =
     forE [0..<length (grid g)]
       (\<lambda>i s. forE [0..<length (grid s ! i)] (\<lambda>j. connect_cell (i, j)) s) g"

definition Grid_init :: "int \<Rightarrow> int \<Rightarrow> error + 'v Grid" where
  "Grid_init nr nc =
     (if \<not> nr > 0 then Inl AssertionError
      else if \<not> nc > 0 then Inl AssertionError
      else connect_cells
             \<lparr>num_rows = nat nr, num_columns = nat nc,
              grid = create_cells (nat nr) (nat nc), markup = None\<rparr>)"

definition size_grid :: "'v Grid \<Rightarrow> nat" where
  "size_grid g = num_rows g * num_columns g"

definition set_markup :: "'v Grid \<Rightarrow> 'v Markup \<Rightarrow> 'v Grid" where
  "set_markup g m = g\<lparr>markup := Some m\<rparr>"

subsection \<open>Operations of a cell\<close>

text \<open>
  \<open>self.links[cell] = True\<close> adds the key \<open>cell\<close> unless it is there already;
  \<open>del self.links[cell]\<close> raises KeyError when the key is missing and removes the key
  otherwise (the keys of a dictionary are distinct).
\<close>

definition dict_add :: "'k list \<Rightarrow> 'k \<Rightarrow> 'k list" where
  "dict_add ks k = (if k \<in> set ks then ks else ks @ [k])"

text \<open>
  The argument of \<open>link\<close>, \<open>unlink\<close> and \<open>is_linked\<close> is \<open>None\<close> or a cell; the assertion
  \<open>isinstance(cell, Cell)\<close> fails on \<open>None\<close>.  The assertion is the first statement, so a
  failing \<open>link\<close> has changed nothing.
\<close>

function link :: "cref \<Rightarrow> cref option \<Rightarrow> bool \<Rightarrow> 'v Grid \<Rightarrow> error + 'v Grid" where
  "link self None bidirectional g = Inl AssertionError"
| "link self (Some cell) bidirectional g =
     (let g1 = upd_cell self (\<lambda>c. c\<lparr>links := dict_add (links c) cell\<rparr>) g
      in if bidirectional then link cell (Some self) False g1 else Inr g1)"
  by pat_completeness auto
termination
  by (relation "measure (\<lambda>(self, cell, bidirectional, g). if bidirectional then 1 else 0)") auto

text \<open>
  An exception raised by \<open>unlink\<close> leaves the grid as it was at that moment: the reverse
  deletion can fail after the forward one has been done.  So \<open>unlink\<close> returns the
  exception, if any, together with the grid.
\<close>

function unlink :: "cref \<Rightarrow> cref option \<Rightarrow> bool \<Rightarrow> 'v Grid \<Rightarrow> error option \<times> 'v Grid" where
  "unlink self None bidirectional g = (Some AssertionError, g)"
| "unlink self (Some cell) bidirectional g =
     (if cell \<notin> set (links (deref g self)) then (Some KeyError, g)
      else
        let g1 = upd_cell self (\<lambda>c. c\<lparr>links := removeAll cell (links c)\<rparr>) g
        in if bidirectional then unlink cell (Some self) False g1 else (None, g1))"
  by pat_completeness auto
termination
  by (relation "measure (\<lambda>(self, cell, bidirectional, g). if bidirectional then 1 else 0)") auto

declare link.simps [simp del] unlink.simps [simp del]

definition is_linked :: "cref \<Rightarrow> cref option \<Rightarrow> 'v Grid \<Rightarrow> error + bool" where
  "is_linked self cell g =
     (case cell of
        None \<Rightarrow> Inl AssertionError
      | Some c \<Rightarrow> if c \<in> set (links (deref g self)) then Inr True else Inr False)"

definition all_links :: "cref \<Rightarrow> 'v Grid \<Rightarrow> cref list" where
  "all_links self g = links (deref g self)"

definition link_count :: "cref \<Rightarrow> 'v Grid \<Rightarrow> nat" where
  "link_count self g = length (all_links self g)"

definition neighbors :: "cref \<Rightarrow> 'v Grid \<Rightarrow> cref list" where
  "neighbors self g =
     (let neighbors_list = [];
          neighbors_list = (case north (deref g self) of None \<Rightarrow> neighbors_list
                            | Some n \<Rightarrow> neighbors_list @ [n]);
          neighbors_list = (case south (deref g self) of None \<Rightarrow> neighbors_list
                            | Some n \<Rightarrow> neighbors_list @ [n]);
          neighbors_list = (case west (deref g self) of None \<Rightarrow> neighbors_list
                            | Some n \<Rightarrow> neighbors_list @ [n]);
          neighbors_list = (case east (deref g self) of None \<Rightarrow> neighbors_list
                            | Some n \<Rightarrow> neighbors_list @ [n])
      in neighbors_list)"

text \<open>
  \<open>cell.cell_visited()\<close> calls whatever the attribute \<open>cell_visited\<close> holds: the method, or,
  once \<open>aldous_broder\<close> has assigned \<open>True\<close> to the attribute of this cell, the value
  \<open>True\<close>, and calling that raises TypeError before anything is changed.
\<close>

definition cell_visited :: "cref \<Rightarrow> 'v Grid \<Rightarrow> error + 'v Grid" where
  "cell_visited self g =
     (if cell_visited_attr (deref g self) then Inl TypeError
      else Inr (upd_cell self (\<lambda>c. c\<lparr>visit := True\<rparr>) g))"

definition is_visited :: "cref \<Rightarrow> 'v Grid \<Rightarrow> bool" where
  "is_visited self g = (if visit (deref g self) = True then True else False)"

subsection \<open>Queries of a grid\<close>

text \<open>
  \<open>deadends\<close> calls \<open>Cell.all_links()\<close> on the class, with no instance: the parameter
  \<open>self\<close> has no argument and the call raises TypeError.  The list it would build holds the
  class object, not cells.
\<close>

datatype pyobj = Cell_class | Cell_object cref

definition Cell_all_links_on_class :: "error + cref list" where
  "Cell_all_links_on_class = Inl TypeError"

definition deadends :: "'v Grid \<Rightarrow> error + pyobj list" where
  "deadends g =
     bindE Cell_all_links_on_class (\<lambda>ls.
       Inr (if length ls = 1 then [] @ [Cell_class] else []))"

definition each_cell :: "'v Grid \<Rightarrow> error + cref list" where
  "each_cell g =
     forE [0..<num_rows g]
       (\<lambda>r. forE [0..<num_columns g]
          (\<lambda>c out. bindE (cell_at g (int r) (int c)) (\<lambda>x. Inr (out @ [x])))) []"

definition each_row :: "'v Grid \<Rightarrow> cref list list" where
  "each_row g = map (\<lambda>i. map (\<lambda>j. (i, j)) [0..<length (grid g ! i)]) [0..<length (grid g)]"

text \<open>The cells in the order of \<open>for row in grid.grid: for cell in row\<close>.\<close>

definition all_cells :: "'v Grid \<Rightarrow> cref list" where
  "all_cells g = concat (each_row g)"

subsection \<open>Rendering as text\<close>

text \<open>
  \<open>'{:^3s}'.format(s)\<close>: a string shorter than three characters is padded with spaces on
  both sides, the left side getting the smaller half; a longer string is left as it is.
\<close>

definition center3 :: "string \<Rightarrow> string" where
  "center3 s =
     (if length s \<ge> 3 then s
      else replicate ((3 - length s) div 2) (CHR '' '') @ s
           @ replicate ((3 - length s) - (3 - length s) div 2) (CHR '' ''))"

definition newline :: string where
  "newline = [CHR 0x0A]"

text \<open>\<open>self.markup[cell]\<close>: AttributeError when \<open>set_markup\<close> has not been called.\<close>

definition grid_markup_item :: "'v Grid \<Rightarrow> cref \<Rightarrow> error + 'v" where
  "grid_markup_item g cell =
     (case markup g of None \<Rightarrow> Inl AttributeError | Some m \<Rightarrow> Inr (getitem_markup m cell))"

definition east_wall :: "'v Grid \<Rightarrow> cref \<Rightarrow> error + string" where
  "east_wall g cell =
     (case east (deref g cell) of
        None \<Rightarrow> Inr ''|''
      | Some e \<Rightarrow> bindE (is_linked e (Some cell) g) (\<lambda>b. if b then Inr '' '' else Inr ''|''))"

definition south_wall :: "'v Grid \<Rightarrow> cref \<Rightarrow> error + string" where
  "south_wall g cell =
     (case south (deref g cell) of
        None \<Rightarrow> Inr ''---+''
      | Some s \<Rightarrow> bindE (is_linked s (Some cell) g) (\<lambda>b. if b then Inr ''   +'' else Inr ''---+''))"

text \<open>
  \<open>Grid.__str__\<close>.  Python's \<open>str\<close> on a markup value is the parameter \<open>str_of\<close>.
\<close>

definition str_grid :: "('v \<Rightarrow> string) \<Rightarrow> 'v Grid \<Rightarrow> error + string" where
  "str_grid str_of g =
     forE (each_row g)
       (\<lambda>row ret_val.
          bindE (forE row
                   (\<lambda>cell ret_val.
                      bindE (grid_markup_item g cell) (\<lambda>cell_value.
                      bindE (east_wall g cell) (\<lambda>w.
                        Inr (ret_val @ center3 (str_of cell_value) @ w))))
                   (ret_val @ ''|'')) (\<lambda>ret_val.
          bindE (forE row
                   (\<lambda>cell ret_val. bindE (south_wall g cell) (\<lambda>w. Inr (ret_val @ w)))
                   (ret_val @ newline @ ''+'')) (\<lambda>ret_val.
          Inr (ret_val @ newline))))
       (''+'' @ concat (replicate (num_columns g) ''---+'') @ newline)"

subsection \<open>Extremes of a markup\<close>

text \<open>
  Python's \<open>max(iterable, key=f)\<close> keeps the first item and replaces it by a later one only
  when that one's key is strictly greater; \<open>min\<close> likewise with strictly smaller.  Both
  raise ValueError on an empty iterable.  A dictionary iterates its keys in insertion
  order.
\<close>

fun py_max_from :: "('a \<Rightarrow> 'k::linorder) \<Rightarrow> 'a \<Rightarrow> 'a list \<Rightarrow> 'a" where
  "py_max_from key best [] = best"
| "py_max_from key best (x # xs) = py_max_from key (if key x > key best then x else best) xs"

fun py_min_from :: "('a \<Rightarrow> 'k::linorder) \<Rightarrow> 'a \<Rightarrow> 'a list \<Rightarrow> 'a" where
  "py_min_from key best [] = best"
| "py_min_from key best (x # xs) = py_min_from key (if key x < key best then x else best) xs"

definition Markup_max :: "('v::linorder) Markup \<Rightarrow> error + cref" where
  "Markup_max m =
     (case map fst (marks m) of
        [] \<Rightarrow> Inl ValueError
      | k # ks \<Rightarrow> Inr (py_max_from (getitem_markup m) k ks))"

definition Markup_min :: "('v::linorder) Markup \<Rightarrow> error + cref" where
  "Markup_min m =
     (case map fst (marks m) of
        [] \<Rightarrow> Inl ValueError
      | k # ks \<Rightarrow> Inr (py_min_from (getitem_markup m) k ks))"

subsection \<open>The distance markup\<close>

text \<open>
  \<open>DijkstraMarkup.__init__\<close> calls the constructor of \<open>Markup\<close> and then does nothing
  (\<open>pass\<close>); \<open>farthest_cell\<close> is \<open>pass\<close> and returns \<open>None\<close>.
\<close>

definition DijkstraMarkup_init :: "'v Grid \<Rightarrow> cref \<Rightarrow> int \<Rightarrow> int Markup" where
  "DijkstraMarkup_init g root_cell d = Markup_init d"

definition farthest_cell :: "int Markup \<Rightarrow> (cref \<times> int) option" where
  "farthest_cell m = None"

section \<open>The random source\<close>

text \<open>
  The module \<open>random\<close> is modelled by the stream of natural numbers it draws from, one
  number per call.  \<open>random.choice(seq)\<close> is \<open>seq[k]\<close> for a drawn index \<open>k\<close> below
  \<open>len(seq)\<close>, each index being equally likely, and raises IndexError on an empty
  sequence.  \<open>random.uniform(0, 1)\<close> is \<open>0 + (1 - 0) * random()\<close>, and \<open>random()\<close> is a
  53-bit integer divided by \<open>2 ^ 53\<close>; floats are rationals, and comparing them is exact.
\<close>

type_synonym rng = "nat stream"

definition choice :: "'a list \<Rightarrow> rng \<Rightarrow> error + ('a \<times> rng)" where
  "choice seq rnd =
     (if length seq = 0 then Inl IndexError
      else Inr (seq ! (shd rnd mod length seq), stl rnd))"

definition uniform01 :: "rng \<Rightarrow> rat \<times> rng" where
  "uniform01 rnd = (of_nat (shd rnd mod 2 ^ 53) / 2 ^ 53, stl rnd)"

definition random_cell :: "'v Grid \<Rightarrow> rng \<Rightarrow> error + (cref \<times> rng)" where
  "random_cell g rnd =
     bindE (choice [0..<length (grid g)] rnd) (\<lambda>(i, rnd1).
     bindE (choice [0..<length (grid g ! i)] rnd1) (\<lambda>(j, rnd2).
       Inr ((i, j), rnd2)))"

section \<open>The generation algorithms\<close>

text \<open>
  Each algorithm takes the grid and the random source and returns both; what it prints is
  left out.
\<close>

text \<open>
  The loop \<open>for cell in grid.grid[0]: if cell != grid.grid[0][-1]: cell.link(cell.east)\<close>,
  with which \<open>binary_tree\<close> and \<open>sidewinder\<close> both start.
\<close>

definition link_top_row :: "'v Grid \<Rightarrow> error + 'v Grid" where
  "link_top_row g =
     bindE (getitem (grid g) 0) (\<lambda>row0.
       forE [0..<length row0]
         (\<lambda>j s. bindE (grid_item s 0 (- 1)) (\<lambda>last_cell.
                   if (0, j) \<noteq> last_cell then link (0, j) (east (deref s (0, j))) True s
                   else Inr s)) g)"

text \<open>
  The bodies of the second loop of \<open>binary_tree\<close>, of its innermost loop (on the grid and
  the random source), and of the loop over the rows around that.
\<close>

definition link_north_of_last :: "nat \<Rightarrow> 'v Grid \<Rightarrow> error + 'v Grid" where
  "link_north_of_last i s =
     bindE (grid_item s (int i) (- 1)) (\<lambda>c. link c (north (deref s c)) True s)"

definition binary_tree_cell :: "nat \<Rightarrow> nat \<Rightarrow> 'v Grid \<times> rng \<Rightarrow> error + ('v Grid \<times> rng)" where
  "binary_tree_cell i j = (\<lambda>(s, r).
     bindE (grid_item s (int i) (int j)) (\<lambda>c.
     bindE (choice [north (deref s c), east (deref s c)] r) (\<lambda>(x, r').
     bindE (link c x True s) (\<lambda>s'. Inr (s', r')))))"

definition binary_tree_row :: "nat \<Rightarrow> 'v Grid \<times> rng \<Rightarrow> error + ('v Grid \<times> rng)" where
  "binary_tree_row i = (\<lambda>(s, r).
     bindE (getitem (grid s) 0) (\<lambda>row0.
       forE [0..<length row0 - 1] (binary_tree_cell i) (s, r)))"

definition binary_tree :: "'v Grid \<Rightarrow> rng \<Rightarrow> error + ('v Grid \<times> rng)" where
  "binary_tree g rnd =
     bindE (link_top_row g) (\<lambda>g1.
     bindE (forE [1..<length (grid g1)] link_north_of_last g1) (\<lambda>g2.
       forE [1..<length (grid g2)] binary_tree_row (g2, rnd)))"

text \<open>
  One step of the inner loop of \<open>sidewinder\<close>, on the grid, the random source and the
  list \<open>tmplist\<close>; then the body of the loop over the rows, which starts each row with an
  empty \<open>tmplist\<close>.
\<close>

definition sidewinder_cell ::
  "rat \<Rightarrow> nat \<Rightarrow> nat \<Rightarrow> 'v Grid \<times> rng \<times> cref list \<Rightarrow> error + ('v Grid \<times> rng \<times> cref list)" where
  "sidewinder_cell odds i j = (\<lambda>(g, rnd, tmplist).
     (case uniform01 rnd of (u, rnd1) \<Rightarrow>
        if u \<ge> odds \<and> int j \<noteq> int (num_columns g) - 1 then
          bindE (grid_item g (int i) (int j)) (\<lambda>c.
          let tmplist1 = tmplist @ [c] in
          bindE (getitem tmplist1 (- 1)) (\<lambda>last_cell.
          bindE (grid_item g (int i) (int j + 1)) (\<lambda>e.
          bindE (link last_cell (Some e) True g) (\<lambda>g1.
          bindE (grid_item g1 (int i) (int j + 1)) (\<lambda>e'.
            Inr (g1, rnd1, tmplist1 @ [e']))))))
        else
          bindE (grid_item g (int i) (int j)) (\<lambda>c.
          let tmplist1 = tmplist @ [c] in
          bindE (choice tmplist1 rnd1) (\<lambda>(chose, rnd2).
          bindE (link chose (north (deref g chose)) True g) (\<lambda>g1.
            Inr (g1, rnd2, []))))))"

definition sidewinder_row :: "rat \<Rightarrow> nat \<Rightarrow> 'v Grid \<times> rng \<Rightarrow> error + ('v Grid \<times> rng)" where
  "sidewinder_row odds i = (\<lambda>(s, r).
     bindE (forE [0..<num_columns s] (sidewinder_cell odds i) (s, r, []))
       (\<lambda>(s', r', tmplist). Inr (s', r')))"

definition sidewinder :: "'v Grid \<Rightarrow> rat \<Rightarrow> rng \<Rightarrow> error + ('v Grid \<times> rng)" where
  "sidewinder g odds rnd =
     (if \<not> odds \<ge> 0 then Inl AssertionError
      else if \<not> odds < 1 then Inl AssertionError
      else
        bindE (link_top_row g) (\<lambda>g1.
          forE [1..<num_rows g1] (sidewinder_row odds) (g1, rnd)))"

text \<open>
  The \<open>while\<close> loop of \<open>aldous_broder\<close>.  It has no bound on its number of steps: the value
  \<open>None\<close> stands for a run that never ends.  The result carries \<open>iteration_count\<close>, which
  the source prints.
\<close>

partial_function (option) aldous_broder_loop ::
  "cref \<Rightarrow> cref list \<Rightarrow> nat \<Rightarrow> 'v Grid \<Rightarrow> rng \<Rightarrow> (error + ('v Grid \<times> rng \<times> nat)) option" where
  "aldous_broder_loop start_cell cell_notvisited iteration_count g rnd =
     (if length cell_notvisited \<noteq> 0 then
        (case choice (neighbors start_cell g) rnd of
           Inl e \<Rightarrow> Some (Inl e)
         | Inr (cell_to_link, rnd1) \<Rightarrow>
             if \<not> cell_visited_attr (deref g cell_to_link) then
               (case link start_cell (Some cell_to_link) True g of
                  Inl e \<Rightarrow> Some (Inl e)
                | Inr g1 \<Rightarrow>
                    (case list_remove cell_to_link cell_notvisited of
                       Inl e \<Rightarrow> Some (Inl e)
                     | Inr cell_notvisited1 \<Rightarrow>
                         aldous_broder_loop cell_to_link cell_notvisited1 (iteration_count + 1)
                           (upd_cell cell_to_link (\<lambda>c. c\<lparr>cell_visited_attr := True\<rparr>) g1) rnd1))
             else aldous_broder_loop cell_to_link cell_notvisited (iteration_count + 1) g rnd1)
      else Some (Inr (g, rnd, iteration_count)))"

definition aldous_broder :: "'v Grid \<Rightarrow> rng \<Rightarrow> (error + ('v Grid \<times> rng \<times> nat)) option" where
  "aldous_broder g rnd =
     (case random_cell g rnd of
        Inl e \<Rightarrow> Some (Inl e)
      | Inr (start_cell, rnd1) \<Rightarrow>
          (case list_remove start_cell (all_cells g) of
             Inl e \<Rightarrow> Some (Inl e)
           | Inr cell_notvisited \<Rightarrow>
               aldous_broder_loop start_cell cell_notvisited 0
                 (upd_cell start_cell (\<lambda>c. c\<lparr>cell_visited_attr := True\<rparr>) g) rnd1))"

text \<open>
  In \<open>wilson\<close>: the loop \<open>while tmpgrids[-1] != next_cell: tmpgrids.pop()\<close>, on the
  reversed list, and the loop that links the cells of a finished walk and removes them
  from \<open>cell_unused\<close>.
\<close>

fun pop_until_rev :: "'a \<Rightarrow> 'a list \<Rightarrow> error + 'a list" where
  "pop_until_rev x [] = Inl IndexError"
| "pop_until_rev x (y # ys) = (if y \<noteq> x then pop_until_rev x ys else Inr (y # ys))"

definition pop_until :: "'a \<Rightarrow> 'a list \<Rightarrow> error + 'a list" where
  "pop_until x xs = bindE (pop_until_rev x (rev xs)) (\<lambda>ys. Inr (rev ys))"

definition wilson_add_path ::
  "cref list \<Rightarrow> 'v Grid \<times> cref list \<Rightarrow> error + ('v Grid \<times> cref list)" where
  "wilson_add_path tmpgrids =
     forE [0..<length tmpgrids]
       (\<lambda>i (g, cell_unused).
          bindE (getitem tmpgrids (int i)) (\<lambda>ci.
          bindE (getitem tmpgrids (- 1)) (\<lambda>cl.
          bindE (if ci \<noteq> cl
                 then bindE (getitem tmpgrids (int i + 1)) (\<lambda>cn. link ci (Some cn) True g)
                 else Inr g) (\<lambda>g1.
          bindE (list_remove ci cell_unused) (\<lambda>cell_unused1.
            Inr (g1, cell_unused1))))))"

text \<open>
  The \<open>while True\<close> loop of \<open>wilson\<close>; \<open>None\<close> stands for a run that never ends.  The
  result carries \<open>loops_removed\<close>, which the source prints.
\<close>

partial_function (option) wilson_loop ::
  "cref \<Rightarrow> cref list \<Rightarrow> cref list \<Rightarrow> nat \<Rightarrow> 'v Grid \<Rightarrow> rng
     \<Rightarrow> (error + ('v Grid \<times> rng \<times> nat)) option" where
  "wilson_loop first_cell tmpgrids cell_unused loops_removed g rnd =
     (case choice (neighbors first_cell g) rnd of
        Inl e \<Rightarrow> Some (Inl e)
      | Inr (next_cell, rnd1) \<Rightarrow>
          if next_cell \<notin> set cell_unused then
            (case bindE (wilson_add_path tmpgrids (g, cell_unused)) (\<lambda>(g1, cell_unused1).
                  bindE (getitem tmpgrids (- 1)) (\<lambda>last_cell.
                  bindE (link last_cell (Some next_cell) True g1) (\<lambda>g2.
                    Inr (g2, cell_unused1)))) of
               Inl e \<Rightarrow> Some (Inl e)
             | Inr (g2, cell_unused1) \<Rightarrow>
                 if length cell_unused1 = 0 then Some (Inr (g2, rnd1, loops_removed))
                 else
                   (case choice cell_unused1 rnd1 of
                      Inl e \<Rightarrow> Some (Inl e)
                    | Inr (first_cell1, rnd2) \<Rightarrow>
                        wilson_loop first_cell1 ([] @ [first_cell1]) cell_unused1 loops_removed
                          g2 rnd2))
          else if next_cell \<in> set tmpgrids then
            (case bindE (pop_until next_cell tmpgrids) (\<lambda>tmpgrids1.
                  bindE (getitem tmpgrids1 (- 1)) (\<lambda>first_cell1.
                    Inr (tmpgrids1, first_cell1))) of
               Inl e \<Rightarrow> Some (Inl e)
             | Inr (tmpgrids1, first_cell1) \<Rightarrow>
                 wilson_loop first_cell1 tmpgrids1 cell_unused (loops_removed + 1) g rnd1)
          else wilson_loop next_cell (tmpgrids @ [next_cell]) cell_unused loops_removed g rnd1)"

definition wilson :: "'v Grid \<Rightarrow> rng \<Rightarrow> (error + ('v Grid \<times> rng \<times> nat)) option" where
  "wilson g rnd =
     (case bindE (random_cell g rnd) (\<lambda>(chosen_cell, rnd1).
           bindE (list_remove chosen_cell (all_cells g)) (\<lambda>cell_unused.
           bindE (choice cell_unused rnd1) (\<lambda>(first_cell, rnd2).
             Inr (first_cell, cell_unused, rnd2)))) of
        Inl e \<Rightarrow> Some (Inl e)
      | Inr (first_cell, cell_unused, rnd2) \<Rightarrow>
          wilson_loop first_cell ([] @ [first_cell]) cell_unused 0 g rnd2)"

text \<open>The body of \<open>recursive_backtracker\<close> is \<open>pass\<close>: it returns at once.\<close>

definition recursive_backtracker ::
  "'v Grid \<Rightarrow> cref option \<Rightarrow> rng \<Rightarrow> error + ('v Grid \<times> rng)" where
  "recursive_backtracker g start_cell rnd = Inr (g, rnd)"

section \<open>Notions used in the statements\<close>

text \<open>
  A rectangular grid is the table of a function from coordinates to cells; \<open>wired nr nc p\<close>
  is the cell that the constructor of an \<open>nr\<close> by \<open>nc\<close> grid leaves at \<open>p\<close>, and
  \<open>fresh_grid nr nc\<close> the grid it returns.
\<close>

definition tab :: "nat \<Rightarrow> nat \<Rightarrow> (cref \<Rightarrow> Cell) \<Rightarrow> Cell list list" where
  "tab nr nc F = map (\<lambda>r. map (\<lambda>c. F (r, c)) [0..<nc]) [0..<nr]"

definition wired :: "nat \<Rightarrow> nat \<Rightarrow> cref \<Rightarrow> Cell" where
  "wired nr nc p =
     \<lparr>row = fst p, column = snd p, links = [],
      north = (if 0 < fst p then Some (fst p - 1, snd p) else None),
      south = (if fst p + 1 < nr then Some (fst p + 1, snd p) else None),
      east = (if snd p + 1 < nc then Some (fst p, snd p + 1) else None),
      west = (if 0 < snd p then Some (fst p, snd p - 1) else None),
      visit = False, cell_visited_attr = False\<rparr>"

definition wired_upto :: "nat \<Rightarrow> nat \<Rightarrow> nat \<Rightarrow> nat \<Rightarrow> cref \<Rightarrow> Cell" where
  "wired_upto nr nc i j p =
     (if fst p < i \<or> (fst p = i \<and> snd p < j) then wired nr nc p
      else Cell_init (fst p) (snd p))"

definition fresh_grid :: "nat \<Rightarrow> nat \<Rightarrow> 'v Grid" where
  "fresh_grid nr nc =
     \<lparr>num_rows = nr, num_columns = nc, grid = tab nr nc (wired nr nc), markup = None\<rparr>"

text \<open>A grid is rectangular, and a reference is a cell of it.\<close>

definition rectangular :: "'v Grid \<Rightarrow> bool" where
  "rectangular g \<longleftrightarrow>
     length (grid g) = num_rows g \<and> (\<forall>i < num_rows g. length (grid g ! i) = num_columns g)"

definition in_grid :: "'v Grid \<Rightarrow> cref \<Rightarrow> bool" where
  "in_grid g p \<longleftrightarrow> fst p < num_rows g \<and> snd p < num_columns g"

text \<open>
  What the constructor fixes: the dimensions and, for every cell, its coordinates and its
  four neighbour references.
\<close>

definition cell_skeleton ::
  "Cell \<Rightarrow> nat \<times> nat \<times> cref option \<times> cref option \<times> cref option \<times> cref option" where
  "cell_skeleton c = (row c, column c, north c, south c, east c, west c)"

definition skeleton ::
  "'v Grid \<Rightarrow> nat \<times> nat
     \<times> (nat \<times> nat \<times> cref option \<times> cref option \<times> cref option \<times> cref option) list list" where
  "skeleton g = (num_rows g, num_columns g, map (map cell_skeleton) (grid g))"

text \<open>
  The operations that change a grid after its construction: \<open>later_op g g'\<close> when one call
  of an operation on \<open>g\<close> leaves \<open>g'\<close>.  For \<open>unlink\<close> that includes a call that raises; a
  call of \<open>link\<close> or \<open>cell_visited\<close> that raises leaves the grid as it was.
\<close>

inductive later_op :: "'v Grid \<Rightarrow> 'v Grid \<Rightarrow> bool" where
  op_link: "link a b bidirectional g = Inr g' \<Longrightarrow> later_op g g'"
| op_unlink: "unlink a b bidirectional g = (e, g') \<Longrightarrow> later_op g g'"
| op_cell_visited: "cell_visited a g = Inr g' \<Longrightarrow> later_op g g'"
| op_set_markup: "later_op g (set_markup g m)"
| op_connect_cells: "connect_cells g = Inr g' \<Longrightarrow> later_op g g'"
| op_binary_tree: "binary_tree g rnd = Inr (g', rnd') \<Longrightarrow> later_op g g'"
| op_sidewinder: "sidewinder g odds rnd = Inr (g', rnd') \<Longrightarrow> later_op g g'"
| op_aldous_broder: "aldous_broder g rnd = Some (Inr (g', rnd', n)) \<Longrightarrow> later_op g g'"
| op_wilson: "wilson g rnd = Some (Inr (g', rnd', n)) \<Longrightarrow> later_op g g'"
| op_recursive_backtracker:
    "recursive_backtracker g start_cell rnd = Inr (g', rnd') \<Longrightarrow> later_op g g'"

text \<open>
  A cell is open to the east (to the south) when it has a neighbour there and that
  neighbour's links hold the cell.
\<close>

definition open_east :: "'v Grid \<Rightarrow> cref \<Rightarrow> bool" where
  "open_east g cell =
     (case east (deref g cell) of None \<Rightarrow> False | Some e \<Rightarrow> cell \<in> set (links (deref g e)))"

definition open_south :: "'v Grid \<Rightarrow> cref \<Rightarrow> bool" where
  "open_south g cell =
     (case south (deref g cell) of None \<Rightarrow> False | Some s \<Rightarrow> cell \<in> set (links (deref g s)))"

text \<open>The link relation is symmetric.\<close>

definition symmetric_links :: "'v Grid \<Rightarrow> bool" where
  "symmetric_links g \<longleftrightarrow>
     (\<forall>a b. in_grid g a \<and> in_grid g b \<longrightarrow>
        (b \<in> set (links (deref g a))) = (a \<in> set (links (deref g b))))"

text \<open>
  The grid of one row and two columns whose two cells are linked, as the constructor and
  \<open>link\<close> leave it.
\<close>

definition linked_pair_grid :: "'v Grid" where
  "linked_pair_grid =
     \<lparr>num_rows = 1, num_columns = 2,
      grid = [[\<lparr>row = 0, column = 0, links = [(0, 1)], north = None, south = None,
                east = Some (0, 1), west = None, visit = False, cell_visited_attr = False\<rparr>,
               \<lparr>row = 0, column = 1, links = [(0, 0)], north = None, south = None,
                east = None, west = Some (0, 0), visit = False, cell_visited_attr = False\<rparr>]],
      markup = None\<rparr>"

text \<open>The number of links, each undirected link counted once.\<close>

definition link_total :: "'v Grid \<Rightarrow> nat" where
  "link_total g = sum_list (map (\<lambda>a. link_count a g) (all_cells g)) div 2"


section \<open>Rectangular grids as tables\<close>

lemma length_tab [simp]: "length (tab nr nc F) = nr"
  by (simp add: tab_def)

lemma nth_tab [simp]: "i < nr \<Longrightarrow> tab nr nc F ! i = map (\<lambda>c. F (i, c)) [0..<nc]"
  by (simp add: tab_def)

lemma tab_update:
  assumes "i < nr" "j < nc"
  shows "(tab nr nc F)[i := (tab nr nc F ! i)[j := x]] = tab nr nc (F((i, j) := x))"
proof (rule nth_equalityI)
  show "length ((tab nr nc F)[i := (tab nr nc F ! i)[j := x]]) = length (tab nr nc (F((i, j) := x)))"
    by simp
next
  fix r assume "r < length ((tab nr nc F)[i := (tab nr nc F ! i)[j := x]])"
  then have r: "r < nr" by simp
  show "(tab nr nc F)[i := (tab nr nc F ! i)[j := x]] ! r = tab nr nc (F((i, j) := x)) ! r"
  proof (cases "r = i")
    case True
    have "(map (\<lambda>c. F (i, c)) [0..<nc])[j := x] = map (\<lambda>c. (F((i, j) := x)) (i, c)) [0..<nc]"
      by (rule nth_equalityI) (auto simp: nth_list_update)
    with True assms show ?thesis by simp
  next
    case False
    with r show ?thesis by simp
  qed
qed

lemma tab_cong:
  "(\<And>r c. r < nr \<Longrightarrow> c < nc \<Longrightarrow> F (r, c) = F' (r, c)) \<Longrightarrow> tab nr nc F = tab nr nc F'"
  by (simp add: tab_def)

lemma create_cells_tab: "create_cells nr nc = tab nr nc (wired_upto nr nc 0 0)"
  by (simp add: create_cells_def tab_def wired_upto_def)

lemma upd_cell_tab:
  "i < nr \<Longrightarrow> j < nc \<Longrightarrow> grid g = tab nr nc F \<Longrightarrow>
   upd_cell (i, j) f g = g\<lparr>grid := tab nr nc (F((i, j) := f (F (i, j))))\<rparr>"
  unfolding upd_cell_def by (simp add: tab_update del: nth_tab) (simp)

lemma rectangular_tab:
  "rectangular g \<Longrightarrow> grid g = tab (num_rows g) (num_columns g) (deref g)"
  unfolding rectangular_def tab_def deref_def
  by (auto intro!: nth_equalityI)

section \<open>The constructor of a grid\<close>


lemma deref_lit:
  "i < nr \<Longrightarrow> j < nc \<Longrightarrow>
   deref \<lparr>num_rows = a, num_columns = b, grid = tab nr nc F, markup = m\<rparr> (i, j) = F (i, j)"
  by (simp add: deref_def)

lemma upd_cell_lit:
  "i < nr \<Longrightarrow> j < nc \<Longrightarrow>
   upd_cell (i, j) f \<lparr>num_rows = a, num_columns = b, grid = tab nr nc F, markup = m\<rparr>
   = \<lparr>num_rows = a, num_columns = b, grid = tab nr nc (F((i, j) := f (F (i, j)))), markup = m\<rparr>"
  by (simp add: upd_cell_tab)

lemma grid_item_lit:
  "0 \<le> r \<Longrightarrow> r < int nr \<Longrightarrow> 0 \<le> c \<Longrightarrow> c < int nc \<Longrightarrow>
   grid_item \<lparr>num_rows = a, num_columns = b, grid = tab nr nc F, markup = m\<rparr> r c
   = Inr (nat r, nat c)"
  by (simp add: grid_item_def py_index_def bindE_def)

lemma connect_cell_tab:
  assumes "i < nr" "j < nc"
  shows "connect_cell (i, j)
           \<lparr>num_rows = nr, num_columns = nc, grid = tab nr nc (wired_upto nr nc i j), markup = m\<rparr>
         = Inr \<lparr>num_rows = nr, num_columns = nc, grid = tab nr nc (wired_upto nr nc i (Suc j)), markup = m\<rparr>"
proof -
  have c0: "wired_upto nr nc i j (i, j) = Cell_init i j"
    by (simp add: wired_upto_def)
  have fin: "tab nr nc ((wired_upto nr nc i j)((i, j) := wired nr nc (i, j)))
             = tab nr nc (wired_upto nr nc i (Suc j))"
    by (rule tab_cong) (auto simp: wired_upto_def)
  have w: "wired nr nc (i, j) =
      Cell_init i j\<lparr>north := (if 0 < i then Some (i - 1, j) else None),
                     south := (if i + 1 < nr then Some (i + 1, j) else None),
                     west := (if 0 < j then Some (i, j - 1) else None),
                     east := (if j + 1 < nc then Some (i, j + 1) else None)\<rparr>"
    by (simp add: wired_def Cell_init_def)
  show ?thesis
    unfolding fin[symmetric] w connect_cell_def
    using assms c0
    by (auto simp add: bindE_def deref_lit upd_cell_lit grid_item_lit Cell_init_def nat_diff_distrib nat_add_distrib fun_upd_idem)
qed

lemma connect_row:
  assumes "i < nr"
  shows "j \<le> nc \<Longrightarrow>
     forE [j..<nc] (\<lambda>j. connect_cell (i, j))
       \<lparr>num_rows = nr, num_columns = nc, grid = tab nr nc (wired_upto nr nc i j), markup = m\<rparr>
     = Inr \<lparr>num_rows = nr, num_columns = nc, grid = tab nr nc (wired_upto nr nc i nc), markup = m\<rparr>"
proof (induction "nc - j" arbitrary: j)
  case 0
  then show ?case by simp
next
  case (Suc k)
  then have j: "j < nc" by simp
  from Suc have "k = nc - Suc j" "Suc j \<le> nc" by simp_all
  from Suc.hyps(1)[OF this]
  show ?case using j assms
    by (simp add: upt_conv_Cons connect_cell_tab bindE_def)
qed

lemma wired_upto_next_row:
  "tab nr nc (wired_upto nr nc i nc) = tab nr nc (wired_upto nr nc (Suc i) 0)"
  by (rule tab_cong) (auto simp: wired_upto_def)

lemma connect_rows:
  "i \<le> nr \<Longrightarrow>
     forE [i..<nr] (\<lambda>i s. forE [0..<length (grid s ! i)] (\<lambda>j. connect_cell (i, j)) s)
       \<lparr>num_rows = nr, num_columns = nc, grid = tab nr nc (wired_upto nr nc i 0), markup = m\<rparr>
     = Inr \<lparr>num_rows = nr, num_columns = nc, grid = tab nr nc (wired_upto nr nc nr 0), markup = m\<rparr>"
proof (induction "nr - i" arbitrary: i)
  case 0
  then show ?case by simp
next
  case (Suc k)
  then have i: "i < nr" by simp
  from Suc have "k = nr - Suc i" "Suc i \<le> nr" by simp_all
  from Suc.hyps(1)[OF this]
  show ?case using i
    by (simp add: upt_conv_Cons connect_row bindE_def wired_upto_next_row)
qed

lemma wired_upto_all: "tab nr nc (wired_upto nr nc nr 0) = tab nr nc (wired nr nc)"
  by (rule tab_cong) (auto simp: wired_upto_def)

lemma Grid_init_fresh:
  "0 < nr \<Longrightarrow> 0 < nc \<Longrightarrow> Grid_init nr nc = Inr (fresh_grid (nat nr) (nat nc))"
  using connect_rows[of 0 "nat nr" "nat nc" None]
  by (simp add: Grid_init_def connect_cells_def create_cells_tab fresh_grid_def wired_upto_all)

section \<open>Updating one cell of a rectangular grid\<close>

lemma num_rows_upd_cell [simp]: "num_rows (upd_cell p f g) = num_rows g"
  by (simp add: upd_cell_def)

lemma num_columns_upd_cell [simp]: "num_columns (upd_cell p f g) = num_columns g"
  by (simp add: upd_cell_def)

lemma markup_upd_cell [simp]: "markup (upd_cell p f g) = markup g"
  by (simp add: upd_cell_def)

lemma in_grid_upd_cell [simp]: "in_grid (upd_cell p f g) q = in_grid g q"
  by (simp add: in_grid_def)

lemma deref_upd_cell:
  assumes "rectangular g" "in_grid g p" "in_grid g q"
  shows "deref (upd_cell p f g) q = (if q = p then f (deref g p) else deref g q)"
proof -
  from assms have "fst p < length (grid g)" "fst q < length (grid g)"
    by (simp_all add: rectangular_def in_grid_def)
  moreover from assms have "snd p < length (grid g ! fst p)" "snd q < length (grid g ! fst q)"
    by (simp_all add: rectangular_def in_grid_def)
  ultimately show ?thesis
    by (cases p; cases q) (auto simp: deref_def upd_cell_def nth_list_update)
qed

lemma rectangular_upd_cell [simp]: "rectangular g \<Longrightarrow> rectangular (upd_cell p f g)"
proof -
  assume r: "rectangular g"
  have "length (grid (upd_cell p f g) ! i) = num_columns g" if "i < num_rows g" for i
  proof (cases "i = fst p")
    case True
    with that r show ?thesis by (simp add: rectangular_def upd_cell_def)
  next
    case False
    with that r show ?thesis by (simp add: rectangular_def upd_cell_def)
  qed
  with r show ?thesis by (simp add: rectangular_def) (simp add: upd_cell_def)
qed


section \<open>Linking and unlinking\<close>

lemma link_Some:
  "link a (Some b) True g =
     Inr (upd_cell b (\<lambda>c. c\<lparr>links := dict_add (links c) a\<rparr>)
            (upd_cell a (\<lambda>c. c\<lparr>links := dict_add (links c) b\<rparr>) g))"
  by (simp add: link.simps Let_def)

lemma set_dict_add [simp]: "set (dict_add ks k) = insert k (set ks)"
  by (auto simp: dict_add_def)

lemma links_after_link:
  assumes "rectangular g" "in_grid g a" "in_grid g b" "in_grid g q"
    and "link a (Some b) True g = Inr g'"
  shows "set (links (deref g' q)) =
           (if q = a \<and> q = b then insert a (set (links (deref g q)))
            else if q = a then insert b (set (links (deref g q)))
            else if q = b then insert a (set (links (deref g q)))
            else set (links (deref g q)))"
  using assms by (auto simp: link_Some deref_upd_cell)


lemma unlink_not_linked:
  "b \<notin> set (links (deref g a)) \<Longrightarrow> unlink a (Some b) bidirectional g = (Some KeyError, g)"
  by (simp add: unlink.simps)

lemma unlink_outcome:
  assumes "rectangular g" "in_grid g a" "in_grid g b" "b \<in> set (links (deref g a))"
  shows "fst (unlink a (Some b) True g)
         = (if a \<noteq> b \<and> a \<in> set (links (deref g b)) then None else Some KeyError)"
  using assms by (auto simp: unlink.simps Let_def deref_upd_cell)

lemma links_after_unlink:
  assumes "rectangular g" "in_grid g a" "in_grid g b" "in_grid g q"
    and "b \<in> set (links (deref g a))"
  shows "set (links (deref (snd (unlink a (Some b) True g)) q))
         = set (links (deref g q)) - (if q = a then {b} else {}) - (if q = b then {a} else {})"
  using assms by (auto simp: unlink.simps Let_def deref_upd_cell)

lemma shape_after_unlink:
  "rectangular g \<Longrightarrow> rectangular (snd (unlink a b bidirectional g))"
  "in_grid (snd (unlink a b bidirectional g)) q = in_grid g q"
  by (cases b; cases bidirectional; simp add: unlink.simps Let_def)+

lemma shape_after_link:
  assumes "link a b bidirectional g = Inr g'"
  shows "rectangular g \<Longrightarrow> rectangular g'" "in_grid g' q = in_grid g q"
  using assms by (cases b; cases bidirectional; auto simp add: link.simps Let_def)+

section \<open>Small grids\<close>

lemma fresh_grid_1_1:
  "fresh_grid (Suc 0) (Suc 0) = \<lparr>num_rows = 1, num_columns = 1,
     grid = [[\<lparr>row = 0, column = 0, links = [], north = None, south = None, east = None,
               west = None, visit = False, cell_visited_attr = False\<rparr>]], markup = None\<rparr>"
  by (simp add: fresh_grid_def tab_def wired_def)

lemma fresh_grid_1_2:
  "fresh_grid (Suc 0) 2 = \<lparr>num_rows = 1, num_columns = 2,
     grid = [[\<lparr>row = 0, column = 0, links = [], north = None, south = None, east = Some (0, 1),
               west = None, visit = False, cell_visited_attr = False\<rparr>,
              \<lparr>row = 0, column = 1, links = [], north = None, south = None, east = None,
               west = Some (0, 0), visit = False, cell_visited_attr = False\<rparr>]], markup = None\<rparr>"
  by (simp add: fresh_grid_def tab_def wired_def upt_conv_Cons)

lemma link_pair_1_2:
  "link (0, 0) (Some (0, Suc 0)) True (fresh_grid (Suc 0) 2) = Inr linked_pair_grid"
  by (simp add: fresh_grid_1_2 upd_cell_def dict_add_def Let_def link.simps linked_pair_grid_def)

text \<open>
  Claim C1 (every generation algorithm leaves a spanning tree: \<open>rows * columns - 1\<close>
  links, connected, acyclic).  The body of \<open>recursive_backtracker\<close> is \<open>pass\<close>, although
  its docstring describes the algorithm.  On a fresh grid of one row and two columns it
  returns the grid with no link at all, where the claim requires one link.
\<close>

theorem recursive_backtracker_links_nothing:
  "bindE (Grid_init 1 2 :: error + unit Grid) (\<lambda>g.
   bindE (recursive_backtracker g None rnd) (\<lambda>(g', rnd').
     Inr (map (\<lambda>a. all_links a g') (all_cells g'), link_total g', size_grid g' - 1)))
   = Inr ([[], []], 0, 1)"
  by (simp add: Grid_init_fresh fresh_grid_1_2 bindE_def recursive_backtracker_def all_links_def
      all_cells_def each_row_def deref_def link_total_def link_count_def size_grid_def upt_conv_Cons)


text \<open>
  Claim C2 (the distance markup gives the root 0 and every reachable cell its number of
  link-hops from the root, so that linked cells differ by exactly 1).  The constructor of
  \<open>DijkstraMarkup\<close> stores nothing, although its docstring says it runs the algorithm and
  stores each cell's value.  On a grid of one row whose two cells are linked, the markup
  built from the root \<open>(0, 0)\<close> has no entry, both cells read the default 0, and the
  distances of the linked pair differ by 0.
\<close>

theorem DijkstraMarkup_assigns_nothing:
  "bindE (Grid_init 1 2 :: error + unit Grid) (\<lambda>g.
   bindE (link (0, 0) (Some (0, 1)) True g) (\<lambda>g.
     Inr (is_linked (0, 0) (Some (0, 1)) g, is_linked (0, 1) (Some (0, 0)) g,
          marks (DijkstraMarkup_init g (0, 0) 0),
          getitem_markup (DijkstraMarkup_init g (0, 0) 0) (0, 0),
          getitem_markup (DijkstraMarkup_init g (0, 0) 0) (0, 1),
          \<bar>getitem_markup (DijkstraMarkup_init g (0, 0) 0) (0, 0)
            - getitem_markup (DijkstraMarkup_init g (0, 0) 0) (0, 1)\<bar>)))
   = Inr (Inr True, Inr True, [], 0, 0, 0)"
  by (simp add: Grid_init_fresh link_pair_1_2 bindE_def is_linked_def deref_def
      DijkstraMarkup_init_def Markup_init_def getitem_markup_def linked_pair_grid_def)

text \<open>
  Claim C3 (\<open>deadends\<close> returns exactly the cells whose link count is 1).  \<open>deadends\<close>
  calls \<open>all_links\<close> on the class \<open>Cell\<close> instead of on the cells of the grid, and raises
  TypeError on every grid.  On a grid of one row whose two cells are linked, both cells
  have link count 1 and \<open>deadends\<close> raises.
\<close>

theorem deadends_raises_TypeError:
  "deadends g = Inl TypeError \<and>
   bindE (Grid_init 1 2 :: error + unit Grid) (\<lambda>g.
   bindE (link (0, 0) (Some (0, 1)) True g) (\<lambda>g.
     Inr (deadends g, map (\<lambda>a. link_count a g) (all_cells g))))
   = Inr (Inl TypeError, [1, 1])"
  by (simp add: Grid_init_fresh link_pair_1_2 bindE_def deadends_def Cell_all_links_on_class_def
      all_cells_def each_row_def deref_def link_count_def all_links_def upt_conv_Cons
      linked_pair_grid_def)

lemma binary_tree_1_1:
  "binary_tree (fresh_grid (Suc 0) (Suc 0)) rnd = Inr (fresh_grid (Suc 0) (Suc 0), rnd)"
  by (simp add: fresh_grid_1_1 binary_tree_def link_top_row_def bindE_def getitem_def py_index_def
      grid_item_def)

lemma sidewinder_1_1:
  "sidewinder (fresh_grid (Suc 0) (Suc 0)) (1 / 2) rnd = Inr (fresh_grid (Suc 0) (Suc 0), rnd)"
  by (simp add: fresh_grid_1_1 sidewinder_def link_top_row_def bindE_def getitem_def py_index_def
      grid_item_def)

lemma aldous_broder_1_1:
  "aldous_broder (fresh_grid (Suc 0) (Suc 0)) rnd
   = Some (Inr (upd_cell (0, 0) (\<lambda>c. c\<lparr>cell_visited_attr := True\<rparr>) (fresh_grid (Suc 0) (Suc 0)),
                stl (stl rnd), 0))"
  by (simp add: fresh_grid_1_1 aldous_broder_def random_cell_def choice_def bindE_def
      all_cells_def each_row_def list_remove_def aldous_broder_loop.simps)

lemma wilson_1_1:
  "wilson (fresh_grid (Suc 0) (Suc 0)) rnd = Some (Inl IndexError)"
  by (simp add: fresh_grid_1_1 wilson_def random_cell_def choice_def bindE_def
      all_cells_def each_row_def list_remove_def)


text \<open>
  Claim C6 (on a grid of one cell every generation algorithm ends at once, without error
  and with no link).  \<open>wilson\<close> removes the one cell from \<open>cell_unused\<close> and then calls
  \<open>random.choice\<close> on the empty list, which raises IndexError; its loop checks for the
  empty list before it chooses again, the code before the loop does not.  The other four
  algorithms return the grid with no link.
\<close>

theorem wilson_raises_on_single_cell:
  "bindE (Grid_init 1 1 :: error + unit Grid) (\<lambda>g.
     Inr (wilson g rnd,
          bindE (binary_tree g rnd) (\<lambda>(g', r). Inr (map (\<lambda>a. all_links a g') (all_cells g'))),
          bindE (sidewinder g (1 / 2) rnd) (\<lambda>(g', r). Inr (map (\<lambda>a. all_links a g') (all_cells g'))),
          map_option (\<lambda>res. bindE res (\<lambda>(g', r, n). Inr (map (\<lambda>a. all_links a g') (all_cells g'))))
            (aldous_broder g rnd),
          bindE (recursive_backtracker g None rnd)
            (\<lambda>(g', r). Inr (map (\<lambda>a. all_links a g') (all_cells g')))))
   = Inr (Some (Inl IndexError), Inr [[]], Inr [[]], Some (Inr [[]]), Inr [[]])"
  by (simp add: Grid_init_fresh wilson_1_1 binary_tree_1_1 sidewinder_1_1 aldous_broder_1_1
      recursive_backtracker_def bindE_def)
    (simp add: fresh_grid_1_1 all_cells_def each_row_def all_links_def deref_def upd_cell_def)

lemma fresh_grid_2_2:
  "fresh_grid 2 2 = \<lparr>num_rows = 2, num_columns = 2,
     grid = [[\<lparr>row = 0, column = 0, links = [], north = None, south = Some (1, 0),
               east = Some (0, 1), west = None, visit = False, cell_visited_attr = False\<rparr>,
              \<lparr>row = 0, column = 1, links = [], north = None, south = Some (1, 1), east = None,
               west = Some (0, 0), visit = False, cell_visited_attr = False\<rparr>],
             [\<lparr>row = 1, column = 0, links = [], north = Some (0, 0), south = None,
               east = Some (1, 1), west = None, visit = False, cell_visited_attr = False\<rparr>,
              \<lparr>row = 1, column = 1, links = [], north = Some (0, 1), south = None, east = None,
               west = Some (1, 0), visit = False, cell_visited_attr = False\<rparr>]], markup = None\<rparr>"
  by (simp add: fresh_grid_def tab_def wired_def upt_conv_Cons)


lemmas sidewinder_eval =
  sidewinder_def sidewinder_row_def link_top_row_def bindE_def getitem_def py_index_def
  grid_item_def upt_conv_Cons link.simps upd_cell_def dict_add_def deref_def Let_def
  sidewinder_cell_def uniform01_def choice_def all_links_def

lemma sidewinder_2_2_first:
  "bindE (sidewinder (fresh_grid 2 2) (1 / 2) (2 ^ 52 ## d ## 0 ## rnd))
     (\<lambda>(g', r). Inr (all_links (1, 0) g', all_links (1, 1) g'))
   = Inr ([(1, 1), (0, 0)], [(1, 0)])"
  by (simp add: fresh_grid_2_2 sidewinder_eval)

lemma sidewinder_2_2_second:
  "bindE (sidewinder (fresh_grid 2 2) (1 / 2) (2 ^ 52 ## d ## 1 ## rnd))
     (\<lambda>(g', r). Inr (all_links (1, 0) g', all_links (1, 1) g'))
   = Inr ([(1, 1)], [(1, 0), (0, 1)])"
  by (simp add: fresh_grid_2_2 sidewinder_eval)

lemma sidewinder_2_2_third:
  "bindE (sidewinder (fresh_grid 2 2) (1 / 2) (2 ^ 52 ## d ## 2 ## rnd))
     (\<lambda>(g', r). Inr (all_links (1, 0) g', all_links (1, 1) g'))
   = Inr ([(1, 1)], [(1, 0), (0, 1)])"
  by (simp add: fresh_grid_2_2 sidewinder_eval)

text \<open>
  Claim C9 (when \<open>sidewinder\<close> closes a run, the cell linked to the north is chosen
  uniformly among the distinct cells of the run).  The code appends a cell to \<open>tmplist\<close>
  both as the eastern cell of the step before and as the current cell, so every cell of a
  run but the first is in the list twice.  On a fresh grid of two rows and two columns with
  \<open>odds = 1/2\<close>, where the first draw \<open>1/2\<close> continues the run of the second row, the run
  \<open>(1, 0), (1, 1)\<close> closes with \<open>tmplist = [(1, 0), (1, 1), (1, 1)]\<close>: of the three equally
  likely indices, one links \<open>(1, 0)\<close> to the north and two link \<open>(1, 1)\<close>.
\<close>

theorem sidewinder_run_choice_is_biased:
  "map (\<lambda>k. bindE (Grid_init 2 2 :: error + unit Grid) (\<lambda>g.
            bindE (sidewinder g (1 / 2) (2 ^ 52 ## d ## k ## rnd))
              (\<lambda>(g', r). Inr (all_links (1, 0) g', all_links (1, 1) g'))))
     [0, 1, 2]
   = [Inr ([(1, 1), (0, 0)], [(1, 0)]),
      Inr ([(1, 1)], [(1, 0), (0, 1)]),
      Inr ([(1, 1)], [(1, 0), (0, 1)])]"
  using sidewinder_2_2_first[of d rnd] sidewinder_2_2_second[of d rnd] sidewinder_2_2_third[of d rnd]
  by (simp add: Grid_init_fresh bindE_def)

lemma linked_pair_grid_shape:
  "rectangular (linked_pair_grid :: 'v Grid)"
  "in_grid (linked_pair_grid :: 'v Grid) (0, 0)"
  "in_grid (linked_pair_grid :: 'v Grid) (0, 1)"
  by (simp_all add: rectangular_def in_grid_def linked_pair_grid_def)

lemma linked_pair_grid_links:
  "links (deref (linked_pair_grid :: 'v Grid) (0, 0)) = [(0, 1)]"
  "links (deref (linked_pair_grid :: 'v Grid) (0, Suc 0)) = [(0, 0)]"
  by (simp_all add: deref_def linked_pair_grid_def)

lemma linked_pair_grid_symmetric: "symmetric_links (linked_pair_grid :: 'v Grid)"
proof -
  have "q = (0, 0) \<or> q = (0, 1)" if "in_grid (linked_pair_grid :: 'v Grid) q" for q
    using that by (cases q) (auto simp: in_grid_def linked_pair_grid_def)
  then have "((q \<in> set (links (deref (linked_pair_grid :: 'v Grid) p)))
              = (p \<in> set (links (deref (linked_pair_grid :: 'v Grid) q))))"
    if "in_grid (linked_pair_grid :: 'v Grid) p" "in_grid (linked_pair_grid :: 'v Grid) q" for p q
    using that linked_pair_grid_links[where ?'v = 'v]
    by (metis One_nat_def list.set_intros(1) set_ConsD empty_iff empty_set)
  then show ?thesis
    unfolding symmetric_links_def by blast
qed

text \<open>
  Claim C7.  In a rectangular grid, for cells \<open>a\<close> and \<open>b\<close> of the grid that are linked in
  both directions, \<open>unlink\<close> leaves them unlinked in both directions (and raises nothing
  when the cells differ), and \<open>link\<close> after it links them again in both directions;
  bidirectional \<open>link\<close> and \<open>unlink\<close> keep a symmetric link relation symmetric, also when
  \<open>unlink\<close> raises KeyError.
\<close>

theorem link_unlink_round_trip:
  assumes "rectangular g" "in_grid g a" "in_grid g b"
  shows "(is_linked a (Some b) g = Inr True \<and> is_linked b (Some a) g = Inr True \<longrightarrow>
           (a \<noteq> b \<longrightarrow> fst (unlink a (Some b) True g) = None) \<and>
           is_linked a (Some b) (snd (unlink a (Some b) True g)) = Inr False \<and>
           is_linked b (Some a) (snd (unlink a (Some b) True g)) = Inr False \<and>
           (\<exists>g'. link a (Some b) True (snd (unlink a (Some b) True g)) = Inr g' \<and>
                 is_linked a (Some b) g' = Inr True \<and> is_linked b (Some a) g' = Inr True))
       \<and> (symmetric_links g \<longrightarrow>
            symmetric_links (snd (unlink a (Some b) True g)) \<and>
            (\<exists>g'. link a (Some b) True g = Inr g' \<and> symmetric_links g'))"
proof (intro conjI impI)
  let ?u = "snd (unlink a (Some b) True g)"
  have shape: "rectangular ?u" "in_grid ?u a" "in_grid ?u b"
    using assms by (simp_all add: shape_after_unlink)
  {
    assume l: "is_linked a (Some b) g = Inr True \<and> is_linked b (Some a) g = Inr True"
    then have ab: "b \<in> set (links (deref g a))" and ba: "a \<in> set (links (deref g b))"
      by (auto simp: is_linked_def split: if_splits)
    show "fst (unlink a (Some b) True g) = None" if "a \<noteq> b"
      using that ab ba assms by (simp add: unlink_outcome)
    show "is_linked a (Some b) ?u = Inr False"
      using links_after_unlink[OF assms(1,2,3) assms(2) ab] by (simp add: is_linked_def)
    show "is_linked b (Some a) ?u = Inr False"
      using links_after_unlink[OF assms(1,2,3) assms(3) ab] by (simp add: is_linked_def)
    obtain g' where g': "link a (Some b) True ?u = Inr g'"
      by (simp add: link_Some)
    have "is_linked a (Some b) g' = Inr True" "is_linked b (Some a) g' = Inr True"
      using links_after_link[OF shape shape(2) g'] links_after_link[OF shape shape(3) g']
      by (auto simp: is_linked_def)
    with g' show "\<exists>g'. link a (Some b) True ?u = Inr g' \<and>
        is_linked a (Some b) g' = Inr True \<and> is_linked b (Some a) g' = Inr True"
      by blast
  }
  {
    assume s: "symmetric_links g"
    show "symmetric_links ?u"
    proof (cases "b \<in> set (links (deref g a))")
      case False
      with s show ?thesis by (simp add: unlink_not_linked)
    next
      case True
      show ?thesis
        unfolding symmetric_links_def
      proof (intro allI impI)
        fix p q assume "in_grid ?u p \<and> in_grid ?u q"
        then have pq: "in_grid g p" "in_grid g q" by (simp_all add: shape_after_unlink)
        with s have "(q \<in> set (links (deref g p))) = (p \<in> set (links (deref g q)))"
          unfolding symmetric_links_def by blast
        then show "(q \<in> set (links (deref ?u p))) = (p \<in> set (links (deref ?u q)))"
          using links_after_unlink[OF assms pq(1) True] links_after_unlink[OF assms pq(2) True]
          by auto
      qed
    qed
    obtain g' where g': "link a (Some b) True g = Inr g'"
      by (simp add: link_Some)
    have "symmetric_links g'"
      unfolding symmetric_links_def
    proof (intro allI impI)
      fix p q assume "in_grid g' p \<and> in_grid g' q"
      then have pq: "in_grid g p" "in_grid g q" using shape_after_link[OF g'] by simp_all
      with s have "(q \<in> set (links (deref g p))) = (p \<in> set (links (deref g q)))"
        unfolding symmetric_links_def by blast
      then show "(q \<in> set (links (deref g' p))) = (p \<in> set (links (deref g' q)))"
        using links_after_link[OF assms pq(1) g'] links_after_link[OF assms pq(2) g']
        by auto
    qed
    with g' show "\<exists>g'. link a (Some b) True g = Inr g' \<and> symmetric_links g'" by blast
  }
qed


lemma linked_pair_grid_is_linked:
  "is_linked (0, 0) (Some (0, 1)) (linked_pair_grid :: 'v Grid) = Inr True"
  "is_linked (0, 1) (Some (0, 0)) (linked_pair_grid :: 'v Grid) = Inr True"
  by (simp_all add: is_linked_def linked_pair_grid_links)

theorem link_unlink_round_trip_witness:
  "rectangular (linked_pair_grid :: unit Grid) \<and>
   in_grid (linked_pair_grid :: unit Grid) (0, 0) \<and>
   in_grid (linked_pair_grid :: unit Grid) (0, 1) \<and>
   is_linked (0, 0) (Some (0, 1)) (linked_pair_grid :: unit Grid) = Inr True \<and>
   is_linked (0, 1) (Some (0, 0)) (linked_pair_grid :: unit Grid) = Inr True \<and>
   symmetric_links (linked_pair_grid :: unit Grid) \<and>
   fst (unlink (0, 0) (Some (0, 1)) True (linked_pair_grid :: unit Grid)) = None \<and>
   is_linked (0, 0) (Some (0, 1))
     (snd (unlink (0, 0) (Some (0, 1)) True (linked_pair_grid :: unit Grid))) = Inr False \<and>
   is_linked (0, 1) (Some (0, 0))
     (snd (unlink (0, 0) (Some (0, 1)) True (linked_pair_grid :: unit Grid))) = Inr False \<and>
   (\<exists>g'. link (0, 0) (Some (0, 1)) True
            (snd (unlink (0, 0) (Some (0, 1)) True (linked_pair_grid :: unit Grid))) = Inr g' \<and>
         is_linked (0, 0) (Some (0, 1)) g' = Inr True \<and>
         is_linked (0, 1) (Some (0, 0)) g' = Inr True) \<and>
   symmetric_links (snd (unlink (0, 0) (Some (0, 1)) True (linked_pair_grid :: unit Grid))) \<and>
   (\<exists>g'. link (0, 0) (Some (0, 1)) True (linked_pair_grid :: unit Grid) = Inr g' \<and>
         symmetric_links g')"
proof -
  have shape: "rectangular (linked_pair_grid :: unit Grid)"
    "in_grid (linked_pair_grid :: unit Grid) (0, 0)"
    "in_grid (linked_pair_grid :: unit Grid) (0, 1)"
    by (rule linked_pair_grid_shape)+
  have linked: "is_linked (0, 0) (Some (0, 1)) (linked_pair_grid :: unit Grid) = Inr True"
    "is_linked (0, 1) (Some (0, 0)) (linked_pair_grid :: unit Grid) = Inr True"
    by (rule linked_pair_grid_is_linked)+
  have sym: "symmetric_links (linked_pair_grid :: unit Grid)"
    by (rule linked_pair_grid_symmetric)
  show ?thesis
    using link_unlink_round_trip[OF shape] shape linked sym by simp
qed

section \<open>The first extreme item\<close>

lemma py_max_from_first:
  "\<exists>ys zs. best # xs = ys @ py_max_from key best xs # zs \<and>
     (\<forall>y \<in> set ys. key y < key (py_max_from key best xs)) \<and>
     (\<forall>z \<in> set zs. key z \<le> key (py_max_from key best xs))"
proof (induction xs arbitrary: best)
  case Nil
  show ?case by (rule exI[of _ "[]"], rule exI[of _ "[]"]) simp
next
  case (Cons x xs)
  define b where "b = (if key x > key best then x else best)"
  define r where "r = py_max_from key b xs"
  from Cons.IH[of b] obtain ys zs where d: "b # xs = ys @ r # zs"
    and lt: "\<forall>y \<in> set ys. key y < key r" and le: "\<forall>z \<in> set zs. key z \<le> key r"
    unfolding r_def by blast
  have r: "py_max_from key best (x # xs) = r" by (simp add: r_def b_def)
  have b_le: "key b \<le> key r"
  proof (cases ys)
    case Nil
    with d show ?thesis by simp
  next
    case (Cons y ys')
    with d lt show ?thesis by (simp add: less_imp_le)
  qed
  show ?case
  proof (cases "key x > key best")
    case True
    then have bx: "b = x" by (simp add: b_def)
    have "best # x # xs = (best # ys) @ r # zs" using d bx by simp
    moreover have "\<forall>y \<in> set (best # ys). key y < key r"
      using True b_le lt bx by auto
    ultimately show ?thesis unfolding r using le by blast
  next
    case False
    then have bb: "b = best" by (simp add: b_def)
    show ?thesis
    proof (cases ys)
      case Nil
      with d bb have "best # x # xs = [] @ r # (x # zs)" by simp
      moreover have "\<forall>z \<in> set (x # zs). key z \<le> key r"
        using False b_le le bb by auto
      ultimately show ?thesis unfolding r by (metis empty_iff empty_set)
    next
      case (Cons y ys')
      with d bb have yb: "y = best" and "xs = ys' @ r # zs" by simp_all
      then have "best # x # xs = (best # x # ys') @ r # zs" by simp
      moreover have "key best < key r" using lt Cons yb by simp
      then have "\<forall>y \<in> set (best # x # ys'). key y < key r"
        using False lt Cons by auto
      ultimately show ?thesis unfolding r using le by blast
    qed
  qed
qed

lemma py_min_from_first:
  "\<exists>ys zs. best # xs = ys @ py_min_from key best xs # zs \<and>
     (\<forall>y \<in> set ys. key (py_min_from key best xs) < key y) \<and>
     (\<forall>z \<in> set zs. key (py_min_from key best xs) \<le> key z)"
proof (induction xs arbitrary: best)
  case Nil
  show ?case by (rule exI[of _ "[]"], rule exI[of _ "[]"]) simp
next
  case (Cons x xs)
  define b where "b = (if key x < key best then x else best)"
  define r where "r = py_min_from key b xs"
  from Cons.IH[of b] obtain ys zs where d: "b # xs = ys @ r # zs"
    and lt: "\<forall>y \<in> set ys. key r < key y" and le: "\<forall>z \<in> set zs. key r \<le> key z"
    unfolding r_def by blast
  have r: "py_min_from key best (x # xs) = r" by (simp add: r_def b_def)
  have b_le: "key r \<le> key b"
  proof (cases ys)
    case Nil
    with d show ?thesis by simp
  next
    case (Cons y ys')
    with d lt show ?thesis by (simp add: less_imp_le)
  qed
  show ?case
  proof (cases "key x < key best")
    case True
    then have bx: "b = x" by (simp add: b_def)
    have "best # x # xs = (best # ys) @ r # zs" using d bx by simp
    moreover have "\<forall>y \<in> set (best # ys). key r < key y"
      using True b_le lt bx by auto
    ultimately show ?thesis unfolding r using le by blast
  next
    case False
    then have bb: "b = best" by (simp add: b_def)
    show ?thesis
    proof (cases ys)
      case Nil
      with d bb have "best # x # xs = [] @ r # (x # zs)" by simp
      moreover have "\<forall>z \<in> set (x # zs). key r \<le> key z"
        using False b_le le bb by auto
      ultimately show ?thesis unfolding r by (metis empty_iff empty_set)
    next
      case (Cons y ys')
      with d bb have yb: "y = best" and "xs = ys' @ r # zs" by simp_all
      then have "best # x # xs = (best # x # ys') @ r # zs" by simp
      moreover have "key r < key best" using lt Cons yb by simp
      then have "\<forall>y \<in> set (best # x # ys'). key r < key y"
        using False lt Cons by auto
      ultimately show ?thesis unfolding r using le by blast
    qed
  qed
qed

text \<open>
  Claim C5, as the code has it.  For a markup with at least one entry, \<open>max\<close> returns a cell
  of largest value and \<open>min\<close> a cell of smallest value, and among the cells that tie for the
  extreme the one returned is the first in the insertion order of the markup's entries:
  every entry before it is strictly less extreme.
\<close>

theorem Markup_max_min_first_inserted:
  assumes "marks m \<noteq> []"
  shows "\<exists>c c'. Markup_max m = Inr c \<and> Markup_min m = Inr c' \<and>
           (\<exists>before after. map fst (marks m) = before @ c # after \<and>
              (\<forall>k \<in> set before. getitem_markup m k < getitem_markup m c) \<and>
              (\<forall>k \<in> set after. getitem_markup m k \<le> getitem_markup m c)) \<and>
           (\<exists>before after. map fst (marks m) = before @ c' # after \<and>
              (\<forall>k \<in> set before. getitem_markup m c' < getitem_markup m k) \<and>
              (\<forall>k \<in> set after. getitem_markup m c' \<le> getitem_markup m k))"
proof -
  from assms obtain k ks where ks: "map fst (marks m) = k # ks"
    by (cases "marks m") auto
  then have "Markup_max m = Inr (py_max_from (getitem_markup m) k ks)"
    and "Markup_min m = Inr (py_min_from (getitem_markup m) k ks)"
    by (simp_all add: Markup_max_def Markup_min_def)
  then show ?thesis
    using py_max_from_first[of k ks "getitem_markup m"]
      py_min_from_first[of k ks "getitem_markup m"] ks
    by simp
qed


theorem Markup_max_min_first_inserted_witness:
  "marks (setitem (setitem (Markup_init (0::int)) (0, 1) 5) (0, 0) 5) \<noteq> [] \<and>
   (\<exists>c c'. Markup_max (setitem (setitem (Markup_init (0::int)) (0, 1) 5) (0, 0) 5) = Inr c \<and>
      Markup_min (setitem (setitem (Markup_init (0::int)) (0, 1) 5) (0, 0) 5) = Inr c' \<and>
      (\<exists>before after.
         map fst (marks (setitem (setitem (Markup_init (0::int)) (0, 1) 5) (0, 0) 5))
           = before @ c # after \<and>
         (\<forall>k \<in> set before.
            getitem_markup (setitem (setitem (Markup_init (0::int)) (0, 1) 5) (0, 0) 5) k
            < getitem_markup (setitem (setitem (Markup_init (0::int)) (0, 1) 5) (0, 0) 5) c) \<and>
         (\<forall>k \<in> set after.
            getitem_markup (setitem (setitem (Markup_init (0::int)) (0, 1) 5) (0, 0) 5) k
            \<le> getitem_markup (setitem (setitem (Markup_init (0::int)) (0, 1) 5) (0, 0) 5) c)) \<and>
      (\<exists>before after.
         map fst (marks (setitem (setitem (Markup_init (0::int)) (0, 1) 5) (0, 0) 5))
           = before @ c' # after \<and>
         (\<forall>k \<in> set before.
            getitem_markup (setitem (setitem (Markup_init (0::int)) (0, 1) 5) (0, 0) 5) c'
            < getitem_markup (setitem (setitem (Markup_init (0::int)) (0, 1) 5) (0, 0) 5) k) \<and>
         (\<forall>k \<in> set after.
            getitem_markup (setitem (setitem (Markup_init (0::int)) (0, 1) 5) (0, 0) 5) c'
            \<le> getitem_markup (setitem (setitem (Markup_init (0::int)) (0, 1) 5) (0, 0) 5) k)))"
proof -
  have ne: "marks (setitem (setitem (Markup_init (0::int)) (0, 1) 5) (0, 0) 5) \<noteq> []"
    by (simp add: setitem_def Markup_init_def)
  show ?thesis
    using Markup_max_min_first_inserted[OF ne] ne by blast
qed

text \<open>
  Claim C5 as stated (ties go to the first cell in row-major order) fails: with the cell
  \<open>(0, 1)\<close> set before the cell \<open>(0, 0)\<close>, both to 5, \<open>max\<close> and \<open>min\<close> return \<open>(0, 1)\<close>,
  although \<open>(0, 0)\<close> comes first in \<open>each_cell\<close>.
\<close>

theorem Markup_max_tie_not_row_major:
  "Markup_max (setitem (setitem (Markup_init (0::int)) (0, 1) 5) (0, 0) 5) = Inr (0, 1) \<and>
   Markup_min (setitem (setitem (Markup_init (0::int)) (0, 1) 5) (0, 0) 5) = Inr (0, 1) \<and>
   getitem_markup (setitem (setitem (Markup_init (0::int)) (0, 1) 5) (0, 0) 5) (0, 0) = 5 \<and>
   getitem_markup (setitem (setitem (Markup_init (0::int)) (0, 1) 5) (0, 0) 5) (0, 1) = 5 \<and>
   Grid_init 1 2 = Inr (fresh_grid 1 2 :: int Grid) \<and>
   each_cell (fresh_grid 1 2 :: int Grid) = Inr [(0, 0), (0, 1)]"
  by (simp add: Grid_init_fresh)
    (simp add: setitem_def Markup_init_def Markup_max_def Markup_min_def getitem_markup_def
      each_cell_def cell_at_def grid_item_def py_index_def bindE_def fresh_grid_1_2
      upt_conv_Cons)

section \<open>What no operation changes\<close>

lemma map_update_same:
  assumes "h (f (xs ! j)) = h (xs ! j)"
  shows "map h (xs[j := f (xs ! j)]) = map h xs"
proof (cases "j < length xs")
  case True
  with assms show ?thesis
    by (intro nth_equalityI) (auto simp: nth_list_update)
next
  case False
  then show ?thesis by (simp add: not_less list_update_beyond)
qed

lemma skeleton_upd_cell:
  assumes "\<And>c. cell_skeleton (f c) = cell_skeleton c"
  shows "skeleton (upd_cell p f g) = skeleton g"
proof -
  have "map (map cell_skeleton)
          ((grid g)[fst p := (grid g ! fst p)[snd p := f (grid g ! fst p ! snd p)]])
        = map (map cell_skeleton) (grid g)"
    by (rule map_update_same[where f = "\<lambda>row. row[snd p := f (row ! snd p)]"])
      (rule map_update_same, rule assms)
  then show ?thesis by (simp add: skeleton_def upd_cell_def)
qed

lemma skeleton_link:
  "link a b bidirectional g = Inr g' \<Longrightarrow> skeleton g' = skeleton g"
  by (cases b; cases bidirectional)
    (auto simp: link.simps Let_def skeleton_upd_cell cell_skeleton_def)

lemma skeleton_unlink: "skeleton (snd (unlink a b bidirectional g)) = skeleton g"
  by (cases b; cases bidirectional)
    (auto simp: unlink.simps Let_def skeleton_upd_cell cell_skeleton_def)

lemma forE_preserves:
  assumes "forE xs body s = Inr s'" and "P s"
    and "\<And>x t t'. x \<in> set xs \<Longrightarrow> body x t = Inr t' \<Longrightarrow> P t \<Longrightarrow> P t'"
  shows "P s'"
  using assms
proof (induction xs arbitrary: s)
  case Nil
  then show ?case by simp
next
  case (Cons x xs)
  from Cons.prems(1) obtain t where t: "body x s = Inr t" and rest: "forE xs body t = Inr s'"
    by (auto simp: bindE_def split: sum.splits)
  from Cons.prems(3)[OF _ t Cons.prems(2)] have Pt: "P t" by simp
  show ?case
  proof (rule Cons.IH[OF rest Pt])
    fix y u u' assume "y \<in> set xs" "body y u = Inr u'" "P u"
    then show "P u'" using Cons.prems(3)[of y u u'] by simp
  qed
qed

lemma bindE_Inr:
  "bindE m f = Inr y \<Longrightarrow> \<exists>x. m = Inr x \<and> f x = Inr y"
  by (cases m) (simp_all add: bindE_def)

lemma skeleton_link_top_row: "link_top_row g = Inr g' \<Longrightarrow> skeleton g' = skeleton g"
  unfolding link_top_row_def
  apply (drule bindE_Inr)
  apply clarify
  apply (erule forE_preserves[where P = "\<lambda>s. skeleton s = skeleton g"])
   apply simp
  apply (drule bindE_Inr)
  apply (auto split: if_splits dest: skeleton_link)
  done



lemma skeleton_link_north_of_last:
  "link_north_of_last i s = Inr s' \<Longrightarrow> skeleton s' = skeleton s"
  unfolding link_north_of_last_def by (auto dest!: bindE_Inr dest: skeleton_link)

lemma skeleton_binary_tree_cell:
  "binary_tree_cell i j (s, r) = Inr (s', r') \<Longrightarrow> skeleton s' = skeleton s"
  unfolding binary_tree_cell_def by (auto dest!: bindE_Inr dest: skeleton_link)

lemma forE_preserves_fst:
  assumes "forE xs body (s, r) = Inr (s', r')"
    and "\<And>x t u t' u'. x \<in> set xs \<Longrightarrow> body x (t, u) = Inr (t', u') \<Longrightarrow> K t' = K t"
  shows "K s' = K s"
proof -
  have "(\<lambda>(t, u). K t = K s) (s', r')"
    by (rule forE_preserves[OF assms(1)]) (auto dest: assms(2))
  then show ?thesis by simp
qed

lemma skeleton_binary_tree_row:
  "binary_tree_row i (s, r) = Inr (s', r') \<Longrightarrow> skeleton s' = skeleton s"
  unfolding binary_tree_row_def
  by (auto dest!: bindE_Inr elim!: forE_preserves_fst dest: skeleton_binary_tree_cell)

lemma skeleton_binary_tree:
  assumes "binary_tree g rnd = Inr (g', rnd')"
  shows "skeleton g' = skeleton g"
proof -
  from assms obtain g1 g2 where g1: "link_top_row g = Inr g1"
    and g2: "forE [1..<length (grid g1)] link_north_of_last g1 = Inr g2"
    and g3: "forE [1..<length (grid g2)] binary_tree_row (g2, rnd) = Inr (g', rnd')"
    unfolding binary_tree_def by (blast dest: bindE_Inr)
  have s1: "skeleton g1 = skeleton g"
    by (rule skeleton_link_top_row[OF g1])
  have s2: "skeleton g2 = skeleton g1"
    by (rule forE_preserves[OF g2, where P = "\<lambda>s. skeleton s = skeleton g1"])
      (auto dest: skeleton_link_north_of_last)
  have "skeleton g' = skeleton g2"
    by (rule forE_preserves_fst[OF g3]) (rule skeleton_binary_tree_row)
  with s1 s2 show ?thesis by simp
qed

lemma skeleton_sidewinder_cell:
  "sidewinder_cell odds i j (s, r, tmp) = Inr (s', r', tmp') \<Longrightarrow> skeleton s' = skeleton s"
  unfolding sidewinder_cell_def
  by (auto simp: Let_def split: prod.splits if_splits dest!: bindE_Inr dest: skeleton_link)

lemma skeleton_sidewinder_row:
  assumes "sidewinder_row odds i (s, r) = Inr (s', r')"
  shows "skeleton s' = skeleton s"
proof -
  from assms obtain tmp where
    run: "forE [0..<num_columns s] (sidewinder_cell odds i) (s, r, []) = Inr (s', r', tmp)"
    unfolding sidewinder_row_def by (auto dest!: bindE_Inr)
  show ?thesis
    by (rule forE_preserves_fst[OF run]) (auto dest: skeleton_sidewinder_cell)
qed

lemma skeleton_sidewinder:
  assumes "sidewinder g odds rnd = Inr (g', rnd')"
  shows "skeleton g' = skeleton g"
proof -
  from assms obtain g1 where g1: "link_top_row g = Inr g1"
    and g2: "forE [1..<num_rows g1] (sidewinder_row odds) (g1, rnd) = Inr (g', rnd')"
    unfolding sidewinder_def by (auto split: if_splits dest!: bindE_Inr)
  have "skeleton g' = skeleton g1"
    by (rule forE_preserves_fst[OF g2]) (rule skeleton_sidewinder_row)
  with skeleton_link_top_row[OF g1] show ?thesis by simp
qed

lemma skeleton_aldous_broder_loop:
  assumes "aldous_broder_loop a nv k g rnd = Some (Inr (g', rnd', n))"
  shows "skeleton g' = skeleton g"
proof -
  have "\<forall>g' rnd' n. y = Inr (g', rnd', n) \<longrightarrow> skeleton g' = skeleton g"
    if "aldous_broder_loop a nv k g rnd = Some y" for y
  proof (rule aldous_broder_loop.raw_induct[where P = "\<lambda>a nv k g rnd y.
      \<forall>g' rnd' n. y = Inr (g', rnd', n) \<longrightarrow> skeleton g' = skeleton g", OF _ that], goal_cases)
    case (1 loop a nv k g rnd y)
    have mark: "skeleton (upd_cell p (\<lambda>c. c\<lparr>cell_visited_attr := True\<rparr>) h) = skeleton h" for p h
      by (rule skeleton_upd_cell) (simp add: cell_skeleton_def)
    show ?case
    proof (cases y)
      case (Inl e)
      then show ?thesis by simp
    next
    case (Inr res)
    show ?thesis
    proof (cases "length nv \<noteq> 0")
      case False
      with 1(2) show ?thesis by auto
    next
      case True
      with 1(2) Inr obtain c rnd1 where ch: "choice (neighbors a g) rnd = Inr (c, rnd1)"
        by (auto split: sum.splits)
      show ?thesis
      proof (cases "cell_visited_attr (deref g c)")
        case True
        with 1(2) ch \<open>length nv \<noteq> 0\<close> have "loop c nv (k + 1) g rnd1 = Some y" by simp
        from 1(1)[OF this] show ?thesis by blast
      next
        case False
        with 1(2) ch Inr \<open>length nv \<noteq> 0\<close> obtain g1 nv1
          where l: "link a (Some c) True g = Inr g1"
            and r: "loop c nv1 (k + 1) (upd_cell c (\<lambda>c. c\<lparr>cell_visited_attr := True\<rparr>) g1) rnd1
                    = Some y"
          by (auto split: sum.splits)
        from 1(1)[OF r] skeleton_link[OF l] show ?thesis by (auto simp: mark)
      qed
    qed
    qed
  qed
  with assms show ?thesis by blast
qed

lemma skeleton_aldous_broder:
  assumes "aldous_broder g rnd = Some (Inr (g', rnd', n))"
  shows "skeleton g' = skeleton g"
proof -
  have mark: "skeleton (upd_cell p (\<lambda>c. c\<lparr>cell_visited_attr := True\<rparr>) h) = skeleton h" for p h
    by (rule skeleton_upd_cell) (simp add: cell_skeleton_def)
  from assms show ?thesis
    unfolding aldous_broder_def
    by (auto split: sum.splits prod.splits dest!: skeleton_aldous_broder_loop simp: mark)
qed


lemma skeleton_wilson_add_path:
  assumes "wilson_add_path tmpgrids (g, unused) = Inr (g', unused')"
  shows "skeleton g' = skeleton g"
  by (rule forE_preserves_fst[OF assms[unfolded wilson_add_path_def]])
    (auto split: if_splits dest!: bindE_Inr dest: skeleton_link)

lemma skeleton_wilson_loop:
  assumes "wilson_loop a tmp unused k g rnd = Some (Inr (g', rnd', n))"
  shows "skeleton g' = skeleton g"
proof -
  have "\<forall>g' rnd' n. y = Inr (g', rnd', n) \<longrightarrow> skeleton g' = skeleton g"
    if "wilson_loop a tmp unused k g rnd = Some y" for y
  proof (rule wilson_loop.raw_induct[where P = "\<lambda>a tmp unused k g rnd y.
      \<forall>g' rnd' n. y = Inr (g', rnd', n) \<longrightarrow> skeleton g' = skeleton g", OF _ that], goal_cases)
    case (1 loop a tmp unused k g rnd y)
    show ?case
    proof (cases y)
      case (Inl e)
      then show ?thesis by simp
    next
      case (Inr res)
      with 1(2) obtain c rnd1 where ch: "choice (neighbors a g) rnd = Inr (c, rnd1)"
        by (auto split: sum.splits)
      consider (hit) "c \<notin> set unused" | (erase) "c \<in> set unused" "c \<in> set tmp"
        | (walk) "c \<in> set unused" "c \<notin> set tmp"
        by blast
      then show ?thesis
      proof cases
        case hit
        with 1(2) ch Inr obtain g2 unused1 where
          path: "bindE (wilson_add_path tmp (g, unused)) (\<lambda>(g1, cell_unused1).
                  bindE (getitem tmp (- 1)) (\<lambda>last_cell.
                  bindE (link last_cell (Some c) True g1) (\<lambda>g2.
                    Inr (g2, cell_unused1)))) = Inr (g2, unused1)"
          and rest: "(if length unused1 = 0 then Some (Inr (g2, rnd1, k))
                 else
                   (case choice unused1 rnd1 of
                      Inl e \<Rightarrow> Some (Inl e)
                    | Inr (first_cell1, rnd2) \<Rightarrow>
                        loop first_cell1 ([] @ [first_cell1]) unused1 k g2 rnd2)) = Some y"
          by (auto split: sum.splits)
        from path have s2: "skeleton g2 = skeleton g"
          by (auto dest!: bindE_Inr) (metis skeleton_link skeleton_wilson_add_path)
        show ?thesis
        proof (cases "length unused1 = 0")
          case True
          with rest s2 show ?thesis by auto
        next
          case False
          with rest Inr obtain fc rnd2 where "loop fc ([] @ [fc]) unused1 k g2 rnd2 = Some y"
            by (auto split: sum.splits)
          from 1(1)[OF this] s2 show ?thesis by auto
        qed
      next
        case erase
        with 1(2) ch Inr obtain tmp1 fc where "loop fc tmp1 unused (k + 1) g rnd1 = Some y"
          by (auto split: sum.splits)
        from 1(1)[OF this] show ?thesis by blast
      next
        case walk
        with 1(2) ch have "loop c (tmp @ [c]) unused k g rnd1 = Some y"
          by simp
        from 1(1)[OF this] show ?thesis by blast
      qed
    qed
  qed
  with assms show ?thesis by blast
qed

lemma skeleton_wilson:
  assumes "wilson g rnd = Some (Inr (g', rnd', n))"
  shows "skeleton g' = skeleton g"
  using assms unfolding wilson_def
  by (auto split: sum.splits prod.splits dest: skeleton_wilson_loop)

section \<open>Grids with the skeleton of a fresh grid\<close>

lemma skeleton_fresh_shape:
  assumes "skeleton g = skeleton (fresh_grid nr nc :: 'v Grid)"
  shows "num_rows g = nr" "num_columns g = nc" "rectangular g"
    and "\<And>i j. i < nr \<Longrightarrow> j < nc \<Longrightarrow>
           cell_skeleton (deref g (i, j)) = cell_skeleton (wired nr nc (i, j))"
proof -
  from assms show nr: "num_rows g = nr" and nc: "num_columns g = nc"
    by (simp_all add: skeleton_def fresh_grid_def)
  from assms have eq: "map (map cell_skeleton) (grid g) = map (map cell_skeleton) (tab nr nc (wired nr nc))"
    by (simp add: skeleton_def fresh_grid_def)
  then have len: "length (grid g) = nr"
    using map_eq_imp_length_eq[OF eq] by simp
  have rows: "map cell_skeleton (grid g ! i) = map cell_skeleton (tab nr nc (wired nr nc) ! i)"
    if "i < nr" for i
    using arg_cong[OF eq, of "\<lambda>xs. xs ! i"] that len by simp
  have len_row: "length (grid g ! i) = nc" if "i < nr" for i
    using map_eq_imp_length_eq[OF rows[OF that]] that by simp
  from len len_row nr nc show "rectangular g"
    by (simp add: rectangular_def)
  show "cell_skeleton (deref g (i, j)) = cell_skeleton (wired nr nc (i, j))"
    if "i < nr" "j < nc" for i j
    using arg_cong[OF rows[OF that(1)], of "\<lambda>xs. xs ! j"] that len_row[OF that(1)]
    by (simp add: deref_def)
qed

lemma forE_unchanged:
  "(\<And>x. x \<in> set xs \<Longrightarrow> body x s = Inr s) \<Longrightarrow> forE xs body s = Inr s"
  by (induction xs) (simp_all add: bindE_def)

lemma bindE_Inr_left: "bindE (Inr x) f = f x"
  by (simp add: bindE_def)

lemma connect_cell_again:
  assumes "i < nr" "j < nc"
    and "cell_skeleton (F (i, j)) = cell_skeleton (wired nr nc (i, j))"
  shows "connect_cell (i, j) \<lparr>num_rows = nr, num_columns = nc, grid = tab nr nc F, markup = m\<rparr>
         = Inr \<lparr>num_rows = nr, num_columns = nc, grid = tab nr nc F, markup = m\<rparr>"
proof -
  define G :: "'a Grid" where
    "G = \<lparr>num_rows = nr, num_columns = nc, grid = tab nr nc F, markup = m\<rparr>"
  from assms(3) have f: "row (F (i, j)) = i" "column (F (i, j)) = j"
    "north (F (i, j)) = (if 0 < i then Some (i - 1, j) else None)"
    "south (F (i, j)) = (if i + 1 < nr then Some (i + 1, j) else None)"
    "east (F (i, j)) = (if j + 1 < nc then Some (i, j + 1) else None)"
    "west (F (i, j)) = (if 0 < j then Some (i, j - 1) else None)"
    by (simp_all add: cell_skeleton_def wired_def)
  have d: "deref G (i, j) = F (i, j)" and nrG: "num_rows G = nr" and ncG: "num_columns G = nc"
    using assms(1,2) by (simp_all add: G_def deref_lit)
  have item: "grid_item G r c = Inr (nat r, nat c)"
    if "0 \<le> r" "r < int nr" "0 \<le> c" "c < int nc" for r c
    using that by (simp add: G_def grid_item_lit)
  have upd: "upd_cell (i, j) h G = G" if "h (F (i, j)) = F (i, j)" for h
    using assms(1,2) that by (simp add: G_def upd_cell_lit)
  have n: "(if int (row (deref G (i, j))) - 1 \<ge> 0
            then bindE (grid_item G (int (row (deref G (i, j))) - 1) (int (column (deref G (i, j)))))
                   (\<lambda>n. Inr (upd_cell (i, j) (\<lambda>c. c\<lparr>north := Some n\<rparr>) G))
            else Inr G) = Inr G"
  proof (cases "0 < i")
    case True
    then have "grid_item G (int i - 1) (int j) = Inr (i - 1, j)"
      using item[of "int i - 1" "int j"] assms(1,2) by (simp add: nat_diff_distrib)
    moreover have "upd_cell (i, j) (\<lambda>c. c\<lparr>north := Some (i - 1, j)\<rparr>) G = G"
      by (rule upd) (use True f(3) in auto)
    ultimately show ?thesis unfolding d f(1) f(2) using True by (simp add: bindE_def)
  next
    case False
    then show ?thesis unfolding d f(1) f(2) by simp
  qed
  have s: "(if int (row (deref G (i, j))) + 1 < int (num_rows G)
            then bindE (grid_item G (int (row (deref G (i, j))) + 1) (int (column (deref G (i, j)))))
                   (\<lambda>n. Inr (upd_cell (i, j) (\<lambda>c. c\<lparr>south := Some n\<rparr>) G))
            else Inr G) = Inr G"
  proof (cases "i + 1 < nr")
    case True
    then have "grid_item G (int i + 1) (int j) = Inr (i + 1, j)"
      using item[of "int i + 1" "int j"] assms(1,2) by (simp add: nat_add_distrib)
    moreover have "upd_cell (i, j) (\<lambda>c. c\<lparr>south := Some (i + 1, j)\<rparr>) G = G"
      by (rule upd) (use True f(4) in auto)
    ultimately show ?thesis unfolding d f(1) f(2) nrG using True by (simp add: bindE_def)
  next
    case False
    then show ?thesis unfolding d f(1) f(2) nrG by simp
  qed
  have w: "(if int (column (deref G (i, j))) - 1 \<ge> 0
            then bindE (grid_item G (int (row (deref G (i, j)))) (int (column (deref G (i, j))) - 1))
                   (\<lambda>n. Inr (upd_cell (i, j) (\<lambda>c. c\<lparr>west := Some n\<rparr>) G))
            else Inr G) = Inr G"
  proof (cases "0 < j")
    case True
    then have "grid_item G (int i) (int j - 1) = Inr (i, j - 1)"
      using item[of "int i" "int j - 1"] assms(1,2) by (simp add: nat_diff_distrib)
    moreover have "upd_cell (i, j) (\<lambda>c. c\<lparr>west := Some (i, j - 1)\<rparr>) G = G"
      by (rule upd) (use True f(6) in auto)
    ultimately show ?thesis unfolding d f(1) f(2) using True by (simp add: bindE_def)
  next
    case False
    then show ?thesis unfolding d f(1) f(2) by simp
  qed
  have e: "(if int (column (deref G (i, j))) + 1 < int (num_columns G)
            then bindE (grid_item G (int (row (deref G (i, j)))) (int (column (deref G (i, j))) + 1))
                   (\<lambda>n. Inr (upd_cell (i, j) (\<lambda>c. c\<lparr>east := Some n\<rparr>) G))
            else Inr G) = Inr G"
  proof (cases "j + 1 < nc")
    case True
    then have "grid_item G (int i) (int j + 1) = Inr (i, j + 1)"
      using item[of "int i" "int j + 1"] assms(1,2) by (simp add: nat_add_distrib)
    moreover have "upd_cell (i, j) (\<lambda>c. c\<lparr>east := Some (i, j + 1)\<rparr>) G = G"
      by (rule upd) (use True f(5) in auto)
    ultimately show ?thesis unfolding d f(1) f(2) ncG using True by (simp add: bindE_def)
  next
    case False
    then show ?thesis unfolding d f(1) f(2) ncG by simp
  qed
  have "connect_cell (i, j) G = Inr G"
    unfolding connect_cell_def by (simp only: n s w e bindE_Inr_left)
  then show ?thesis by (simp add: G_def)
qed


lemma connect_cells_again:
  assumes "skeleton g = skeleton (fresh_grid nr nc :: 'v Grid)"
  shows "connect_cells (g :: 'v Grid) = Inr g"
proof -
  note shape = skeleton_fresh_shape[OF assms]
  have tab: "grid g = tab nr nc (deref g)"
    using rectangular_tab[OF shape(3)] shape(1,2) by simp
  have g: "g = \<lparr>num_rows = nr, num_columns = nc, grid = tab nr nc (deref g), markup = markup g\<rparr>"
    using shape(1,2) tab by (cases g) simp
  have cell: "connect_cell (i, j) g = Inr g" if "i < nr" "j < nc" for i j
    using connect_cell_again[of i nr j nc "deref g" "markup g", OF that shape(4)[OF that]] g
    by simp
  have row: "forE [0..<length (grid g ! i)] (\<lambda>j. connect_cell (i, j)) g = Inr g" if "i < nr" for i
  proof (rule forE_unchanged)
    fix j assume "j \<in> set [0..<length (grid g ! i)]"
    with that tab have "j < nc" by simp
    with that show "connect_cell (i, j) g = Inr g" by (rule cell)
  qed
  show ?thesis
    unfolding connect_cells_def
  proof (rule forE_unchanged)
    fix i assume "i \<in> set [0..<length (grid g)]"
    with tab have "i < nr" by simp
    then show "forE [0..<length (grid g ! i)] (\<lambda>j. connect_cell (i, j)) g = Inr g" by (rule row)
  qed
qed

lemma later_op_skeleton:
  assumes "later_op g g'" and "skeleton g = skeleton (fresh_grid nr nc :: 'v Grid)"
  shows "skeleton (g' :: 'v Grid) = skeleton g"
  using assms
proof (cases rule: later_op.cases)
  case (op_link a b bidirectional)
  then show ?thesis by (rule skeleton_link)
next
  case (op_unlink a b bidirectional e)
  then show ?thesis using skeleton_unlink[of a b bidirectional g] by simp
next
  case (op_cell_visited a)
  then show ?thesis
    by (auto simp: cell_visited_def skeleton_upd_cell cell_skeleton_def split: if_splits)
next
  case (op_set_markup m)
  then show ?thesis by (simp add: set_markup_def skeleton_def)
next
  case op_connect_cells
  with connect_cells_again[OF assms(2)] show ?thesis by simp
next
  case (op_binary_tree rnd rnd')
  then show ?thesis by (rule skeleton_binary_tree)
next
  case (op_sidewinder odds rnd rnd')
  then show ?thesis by (rule skeleton_sidewinder)
next
  case (op_aldous_broder rnd rnd' n)
  then show ?thesis by (rule skeleton_aldous_broder)
next
  case (op_wilson rnd rnd' n)
  then show ?thesis by (rule skeleton_wilson)
next
  case (op_recursive_backtracker start_cell rnd rnd')
  then show ?thesis by (simp add: recursive_backtracker_def)
qed

lemma later_ops_skeleton:
  assumes "later_op\<^sup>*\<^sup>* g g'" and "skeleton g = skeleton (fresh_grid nr nc :: 'v Grid)"
  shows "skeleton (g' :: 'v Grid) = skeleton (fresh_grid nr nc :: 'v Grid)"
  using assms
proof (induction rule: rtranclp_induct)
  case base
  then show ?case by simp
next
  case (step y z)
  then have "skeleton y = skeleton (fresh_grid nr nc :: 'v Grid)" by simp
  with later_op_skeleton[OF step.hyps(2) this] show ?case by simp
qed

section \<open>The topology and the lookup of a constructed grid\<close>

lemma later_linked_pair_grid: "later_op\<^sup>*\<^sup>* (fresh_grid 1 2 :: 'v Grid) linked_pair_grid"
proof -
  have "link (0, 0) (Some (0, 1)) True (fresh_grid 1 2 :: 'v Grid) = Inr linked_pair_grid"
    using link_pair_1_2 by simp
  then have "later_op (fresh_grid 1 2 :: 'v Grid) linked_pair_grid"
    by (rule op_link)
  then show ?thesis by (rule r_into_rtranclp)
qed

text \<open>
  Claim C10.  The constructor of a grid with positive dimensions succeeds, and in the grid
  it returns, and in every grid that later operations make of it, the cell at \<open>(r, c)\<close> has
  these coordinates, its north is the cell at \<open>(r - 1, c)\<close> when \<open>r > 0\<close> and absent otherwise,
  its south the cell at \<open>(r + 1, c)\<close>, its west the cell at \<open>(r, c - 1)\<close> and its east the
  cell at \<open>(r, c + 1)\<close> when these are in bounds and absent otherwise; east and west, and
  north and south, are inverse to each other.
\<close>

theorem topology_fixed_by_constructor:
  assumes "0 < nr" "0 < nc"
  shows "\<exists>g0 :: 'v Grid. Grid_init nr nc = Inr g0 \<and>
     (\<forall>g r c. later_op\<^sup>*\<^sup>* g0 g \<and> r < nat nr \<and> c < nat nc \<longrightarrow>
        row (deref g (r, c)) = r \<and> column (deref g (r, c)) = c \<and>
        north (deref g (r, c)) = (if 0 < r then Some (r - 1, c) else None) \<and>
        south (deref g (r, c)) = (if r + 1 < nat nr then Some (r + 1, c) else None) \<and>
        west (deref g (r, c)) = (if 0 < c then Some (r, c - 1) else None) \<and>
        east (deref g (r, c)) = (if c + 1 < nat nc then Some (r, c + 1) else None) \<and>
        (\<forall>b. east (deref g (r, c)) = Some b \<longrightarrow> west (deref g b) = Some (r, c)) \<and>
        (\<forall>b. west (deref g (r, c)) = Some b \<longrightarrow> east (deref g b) = Some (r, c)) \<and>
        (\<forall>b. north (deref g (r, c)) = Some b \<longrightarrow> south (deref g b) = Some (r, c)) \<and>
        (\<forall>b. south (deref g (r, c)) = Some b \<longrightarrow> north (deref g b) = Some (r, c)))"
proof (intro exI conjI allI impI)
  show "Grid_init nr nc = Inr (fresh_grid (nat nr) (nat nc) :: 'v Grid)"
    using assms by (rule Grid_init_fresh)
next
  fix g :: "'v Grid" and r c
  assume a: "later_op\<^sup>*\<^sup>* (fresh_grid (nat nr) (nat nc)) g \<and> r < nat nr \<and> c < nat nc"
  then have sk: "skeleton g = skeleton (fresh_grid (nat nr) (nat nc) :: 'v Grid)"
    by (auto intro: later_ops_skeleton)
  have cell: "row (deref g (i, j)) = i \<and> column (deref g (i, j)) = j \<and>
      north (deref g (i, j)) = (if 0 < i then Some (i - 1, j) else None) \<and>
      south (deref g (i, j)) = (if i + 1 < nat nr then Some (i + 1, j) else None) \<and>
      west (deref g (i, j)) = (if 0 < j then Some (i, j - 1) else None) \<and>
      east (deref g (i, j)) = (if j + 1 < nat nc then Some (i, j + 1) else None)"
    if "i < nat nr" "j < nat nc" for i j
    using skeleton_fresh_shape(4)[OF sk that] by (simp add: cell_skeleton_def wired_def)
  from a have rc: "r < nat nr" "c < nat nc" by simp_all
  show "row (deref g (r, c)) = r" "column (deref g (r, c)) = c"
    "north (deref g (r, c)) = (if 0 < r then Some (r - 1, c) else None)"
    "south (deref g (r, c)) = (if r + 1 < nat nr then Some (r + 1, c) else None)"
    "west (deref g (r, c)) = (if 0 < c then Some (r, c - 1) else None)"
    "east (deref g (r, c)) = (if c + 1 < nat nc then Some (r, c + 1) else None)"
    using cell[OF rc] by simp_all
  fix b
  {
    assume "east (deref g (r, c)) = Some b"
    with cell[OF rc] have "b = (r, c + 1)" "c + 1 < nat nc" by (auto split: if_splits)
    with cell[of r "c + 1"] rc show "west (deref g b) = Some (r, c)" by simp
  }
  {
    assume "west (deref g (r, c)) = Some b"
    with cell[OF rc] have "b = (r, c - 1)" "0 < c" by (auto split: if_splits)
    with cell[of r "c - 1"] rc show "east (deref g b) = Some (r, c)" by simp
  }
  {
    assume "north (deref g (r, c)) = Some b"
    with cell[OF rc] have "b = (r - 1, c)" "0 < r" by (auto split: if_splits)
    with cell[of "r - 1" c] rc show "south (deref g b) = Some (r, c)" by simp
  }
  {
    assume "south (deref g (r, c)) = Some b"
    with cell[OF rc] have "b = (r + 1, c)" "r + 1 < nat nr" by (auto split: if_splits)
    with cell[of "r + 1" c] rc show "north (deref g b) = Some (r, c)" by simp
  }
qed


theorem topology_fixed_by_constructor_witness:
  "(0::int) < 1 \<and> (0::int) < 2 \<and>
   Grid_init 1 2 = Inr (fresh_grid 1 2 :: unit Grid) \<and>
   later_op\<^sup>*\<^sup>* (fresh_grid 1 2 :: unit Grid) linked_pair_grid \<and>
   row (deref (linked_pair_grid :: unit Grid) (0, 0)) = 0 \<and>
   column (deref (linked_pair_grid :: unit Grid) (0, 0)) = 0 \<and>
   north (deref (linked_pair_grid :: unit Grid) (0, 0)) = None \<and>
   south (deref (linked_pair_grid :: unit Grid) (0, 0)) = None \<and>
   west (deref (linked_pair_grid :: unit Grid) (0, 0)) = None \<and>
   east (deref (linked_pair_grid :: unit Grid) (0, 0)) = Some (0, 1) \<and>
   west (deref (linked_pair_grid :: unit Grid) (0, 1)) = Some (0, 0)"
proof -
  have init: "Grid_init 1 2 = Inr (fresh_grid 1 2 :: unit Grid)"
    using Grid_init_fresh[of 1 2] by simp
  from topology_fixed_by_constructor[of 1 2, where ?'v = unit] init
  have "\<forall>g r c. later_op\<^sup>*\<^sup>* (fresh_grid 1 2 :: unit Grid) g \<and> r < nat 1 \<and> c < nat 2 \<longrightarrow>
        row (deref g (r, c)) = r \<and> column (deref g (r, c)) = c \<and>
        north (deref g (r, c)) = (if 0 < r then Some (r - 1, c) else None) \<and>
        south (deref g (r, c)) = (if r + 1 < nat 1 then Some (r + 1, c) else None) \<and>
        west (deref g (r, c)) = (if 0 < c then Some (r, c - 1) else None) \<and>
        east (deref g (r, c)) = (if c + 1 < nat 2 then Some (r, c + 1) else None) \<and>
        (\<forall>b. east (deref g (r, c)) = Some b \<longrightarrow> west (deref g b) = Some (r, c)) \<and>
        (\<forall>b. west (deref g (r, c)) = Some b \<longrightarrow> east (deref g b) = Some (r, c)) \<and>
        (\<forall>b. north (deref g (r, c)) = Some b \<longrightarrow> south (deref g b) = Some (r, c)) \<and>
        (\<forall>b. south (deref g (r, c)) = Some b \<longrightarrow> north (deref g b) = Some (r, c))"
    by auto
  from this[rule_format, of linked_pair_grid 0 0] later_linked_pair_grid[where ?'v = unit] init
  show ?thesis by simp
qed

lemma py_index_cases:
  assumes "0 < n"
  shows "py_index n i =
    (if - int n \<le> i \<and> i < int n then Inr (nat (i mod int n)) else Inl IndexError)"
proof -
  have "i mod int n = i" if "0 \<le> i" "i < int n"
    using that by simp
  moreover have "i mod int n = i + int n" if "- int n \<le> i" "i < 0"
  proof -
    have "(i + int n) mod int n = i + int n"
      by (rule mod_pos_pos_trivial) (use that in auto)
    then show ?thesis by simp
  qed
  ultimately show ?thesis
    by (auto simp: py_index_def)
qed

text \<open>
  Claim C4, as the code has it.  In a grid built by the constructor, after any later
  operations, \<open>cell_at\<close> raises IndexError when the row is outside \<open>[-rows, rows)\<close> or the
  column outside \<open>[-columns, columns)\<close>; for a row in \<open>[0, rows)\<close> and a column in
  \<open>[0, columns)\<close> it returns the cell with these coordinates; and a negative index down to
  \<open>-rows\<close> (\<open>-columns\<close>) counts from the end, as Python's list indexing does.
\<close>

theorem cell_at_python_indexing:
  assumes "0 < nr" "0 < nc"
  shows "\<exists>g0 :: 'v Grid. Grid_init nr nc = Inr g0 \<and>
     (\<forall>g r c. later_op\<^sup>*\<^sup>* g0 g \<longrightarrow>
        (r < - nr \<or> nr \<le> r \<or> c < - nc \<or> nc \<le> c \<longrightarrow> cell_at g r c = Inl IndexError) \<and>
        (0 \<le> r \<and> r < nr \<and> 0 \<le> c \<and> c < nc \<longrightarrow>
           cell_at g r c = Inr (nat r, nat c) \<and>
           row (deref g (nat r, nat c)) = nat r \<and> column (deref g (nat r, nat c)) = nat c) \<and>
        (- nr \<le> r \<and> r < nr \<and> - nc \<le> c \<and> c < nc \<longrightarrow>
           cell_at g r c = Inr (nat (r mod nr), nat (c mod nc))))"
proof (intro exI conjI allI impI)
  show "Grid_init nr nc = Inr (fresh_grid (nat nr) (nat nc) :: 'v Grid)"
    using assms by (rule Grid_init_fresh)
next
  fix g :: "'v Grid" and r c :: int
  assume "later_op\<^sup>*\<^sup>* (fresh_grid (nat nr) (nat nc)) g"
  then have sk: "skeleton g = skeleton (fresh_grid (nat nr) (nat nc) :: 'v Grid)"
    by (auto intro: later_ops_skeleton)
  note shape = skeleton_fresh_shape[OF sk]
  have len: "length (grid g) = nat nr"
    and len_row: "\<And>i. i < nat nr \<Longrightarrow> length (grid g ! i) = nat nc"
    using shape(1,2,3) by (simp_all add: rectangular_def)
  have row_index: "py_index (nat nr) r =
      (if - nr \<le> r \<and> r < nr then Inr (nat (r mod nr)) else Inl IndexError)"
    using py_index_cases[of "nat nr" r] assms(1) by simp
  have col_index: "py_index (nat nc) c =
      (if - nc \<le> c \<and> c < nc then Inr (nat (c mod nc)) else Inl IndexError)"
    using py_index_cases[of "nat nc" c] assms(2) by simp
  have row_lt: "nat (r mod nr) < nat nr"
    using assms(1) by simp
  have at: "cell_at g r c =
      (if - nr \<le> r \<and> r < nr \<and> - nc \<le> c \<and> c < nc
       then Inr (nat (r mod nr), nat (c mod nc)) else Inl IndexError)"
    unfolding cell_at_def grid_item_def len row_index
    using len_row[OF row_lt] col_index by (simp add: bindE_def)
  show "cell_at g r c = Inl IndexError" if "r < - nr \<or> nr \<le> r \<or> c < - nc \<or> nc \<le> c"
    using that at by auto
  show "cell_at g r c = Inr (nat (r mod nr), nat (c mod nc))"
    if "- nr \<le> r \<and> r < nr \<and> - nc \<le> c \<and> c < nc"
    using that at by simp
  {
    assume in_bounds: "0 \<le> r \<and> r < nr \<and> 0 \<le> c \<and> c < nc"
    with at show "cell_at g r c = Inr (nat r, nat c)" by simp
    from in_bounds have "nat r < nat nr" "nat c < nat nc" by simp_all
    from shape(4)[OF this]
    show "row (deref g (nat r, nat c)) = nat r" "column (deref g (nat r, nat c)) = nat c"
      by (simp_all add: cell_skeleton_def wired_def)
  }
qed

theorem cell_at_python_indexing_witness:
  "(0::int) < 1 \<and> (0::int) < 2 \<and>
   Grid_init 1 2 = Inr (fresh_grid 1 2 :: unit Grid) \<and>
   later_op\<^sup>*\<^sup>* (fresh_grid 1 2 :: unit Grid) linked_pair_grid \<and>
   cell_at (linked_pair_grid :: unit Grid) 0 2 = Inl IndexError \<and>
   cell_at (linked_pair_grid :: unit Grid) (- 2) 0 = Inl IndexError \<and>
   cell_at (linked_pair_grid :: unit Grid) 0 1 = Inr (0, 1) \<and>
   row (deref (linked_pair_grid :: unit Grid) (0, 1)) = 0 \<and>
   column (deref (linked_pair_grid :: unit Grid) (0, 1)) = 1 \<and>
   cell_at (linked_pair_grid :: unit Grid) (- 1) (- 2) = Inr (0, 0)"
proof -
  have init: "Grid_init 1 2 = Inr (fresh_grid 1 2 :: unit Grid)"
    using Grid_init_fresh[of 1 2] by simp
  from cell_at_python_indexing[of 1 2, where ?'v = unit] init
  have all: "\<forall>g r c. later_op\<^sup>*\<^sup>* (fresh_grid 1 2 :: unit Grid) g \<longrightarrow>
        (r < - 1 \<or> 1 \<le> r \<or> c < - 2 \<or> 2 \<le> c \<longrightarrow> cell_at g r c = Inl IndexError) \<and>
        (0 \<le> r \<and> r < 1 \<and> 0 \<le> c \<and> c < 2 \<longrightarrow>
           cell_at g r c = Inr (nat r, nat c) \<and>
           row (deref g (nat r, nat c)) = nat r \<and> column (deref g (nat r, nat c)) = nat c) \<and>
        (- 1 \<le> r \<and> r < 1 \<and> - 2 \<le> c \<and> c < 2 \<longrightarrow>
           cell_at g r c = Inr (nat (r mod 1), nat (c mod 2)))"
    by auto
  note later = later_linked_pair_grid[where ?'v = unit]
  from all[rule_format, of linked_pair_grid 0 2] all[rule_format, of linked_pair_grid "- 2" 0]
    all[rule_format, of linked_pair_grid 0 1] all[rule_format, of linked_pair_grid "- 1" "- 2"]
    later init
  show ?thesis by simp
qed

text \<open>
  Claim C4 as stated (every pair outside \<open>[0, rows) \<times> [0, columns)\<close>, negative indices
  included, raises) fails: on a grid of two rows and two columns \<open>cell_at(-1, -1)\<close> returns
  the cell \<open>(1, 1)\<close>.
\<close>

theorem cell_at_negative_index_returns_cell:
  "Grid_init 2 2 = Inr (fresh_grid 2 2 :: unit Grid) \<and>
   cell_at (fresh_grid 2 2 :: unit Grid) (- 1) (- 1) = Inr (1, 1)"
  by (simp add: Grid_init_fresh)
    (simp add: fresh_grid_2_2 cell_at_def grid_item_def py_index_def bindE_def)

section \<open>Rendering\<close>

lemma forE_append:
  "(\<And>x s. x \<in> set xs \<Longrightarrow> body x s = Inr (s @ h x)) \<Longrightarrow>
   forE xs body s0 = Inr (s0 @ concat (map h xs))"
  by (induction xs arbitrary: s0) (simp_all add: bindE_def)

lemma east_wall_open: "east_wall g cell = Inr (if open_east g cell then '' '' else ''|'')"
  by (simp add: east_wall_def open_east_def is_linked_def bindE_def split: option.splits)

lemma south_wall_open:
  "south_wall g cell = Inr (if open_south g cell then ''   +'' else ''---+'')"
  by (simp add: south_wall_def open_south_def is_linked_def bindE_def split: option.splits)

lemma length_center3: "length s \<le> 3 \<Longrightarrow> length (center3 s) = 3"
  by (simp add: center3_def)

lemma center3_short:
  "center3 [] = ''   ''" "center3 [x] = [CHR '' '', x, CHR '' '']"
  "center3 [x, y] = [x, y, CHR '' '']"
proof -
  have two: "replicate 2 (CHR '' '') = ''  ''"
    by (simp add: numeral_2_eq_2)
  show "center3 [] = ''   ''" "center3 [x] = [CHR '' '', x, CHR '' '']"
    "center3 [x, y] = [x, y, CHR '' '']"
    by (simp_all add: center3_def two)
qed

lemma str_grid_with_markup:
  assumes "markup g = Some m"
  shows "str_grid str_of g =
           Inr (''+'' @ concat (replicate (num_columns g) ''---+'') @ newline @
                concat (map (\<lambda>row.
                    ''|'' @ concat (map (\<lambda>cell. center3 (str_of (getitem_markup m cell))
                                               @ (if open_east g cell then '' '' else ''|'')) row)
                    @ newline @
                    ''+'' @ concat (map (\<lambda>cell. if open_south g cell then ''   +'' else ''---+'') row)
                    @ newline) (each_row g)))"
proof -
  have inner: "forE row
      (\<lambda>cell ret_val.
          bindE (grid_markup_item g cell) (\<lambda>cell_value.
          bindE (east_wall g cell) (\<lambda>w. Inr (ret_val @ center3 (str_of cell_value) @ w)))) s0
    = Inr (s0 @ concat (map (\<lambda>cell. center3 (str_of (getitem_markup m cell))
                                   @ (if open_east g cell then '' '' else ''|'')) row))"
    for row s0
    by (rule forE_append) (simp add: grid_markup_item_def assms east_wall_open bindE_def)
  have border: "forE row (\<lambda>cell ret_val. bindE (south_wall g cell) (\<lambda>w. Inr (ret_val @ w))) s0
    = Inr (s0 @ concat (map (\<lambda>cell. if open_south g cell then ''   +'' else ''---+'') row))"
    for row s0
    by (rule forE_append) (simp add: south_wall_open bindE_def)
  have "str_grid str_of g =
           Inr ((''+'' @ concat (replicate (num_columns g) ''---+'') @ newline) @
                concat (map (\<lambda>row.
                    ''|'' @ concat (map (\<lambda>cell. center3 (str_of (getitem_markup m cell))
                                               @ (if open_east g cell then '' '' else ''|'')) row)
                    @ newline @
                    ''+'' @ concat (map (\<lambda>cell. if open_south g cell then ''   +'' else ''---+'') row)
                    @ newline) (each_row g)))"
    unfolding str_grid_def
    by (rule forE_append) (simp only: inner border, simp add: bindE_def)
  then show ?thesis by simp
qed

text \<open>
  Without a markup the first cell that the loops reach raises AttributeError: rows without
  cells pass, the first row with a cell does not.
\<close>

lemma rows_without_markup:
  assumes "markup g = None" and "concat rows \<noteq> []"
  shows "forE rows
       (\<lambda>row ret_val.
          bindE (forE row
                   (\<lambda>cell ret_val.
                      bindE (grid_markup_item g cell) (\<lambda>cell_value.
                      bindE (east_wall g cell) (\<lambda>w.
                        Inr (ret_val @ center3 (str_of cell_value) @ w))))
                   (ret_val @ ''|'')) (\<lambda>ret_val.
          bindE (forE row
                   (\<lambda>cell ret_val. bindE (south_wall g cell) (\<lambda>w. Inr (ret_val @ w)))
                   (ret_val @ newline @ ''+'')) (\<lambda>ret_val.
          Inr (ret_val @ newline)))) s
     = Inl AttributeError"
  using assms(2)
proof (induction rows arbitrary: s)
  case Nil
  then show ?case by simp
next
  case (Cons row rows)
  show ?case
  proof (cases row)
    case Nil
    with Cons.prems have "concat rows \<noteq> []" by simp
    from Cons.IH[OF this] Nil show ?thesis by (simp add: bindE_def)
  next
    case (Cons cell cells)
    then show ?thesis by (simp add: bindE_def grid_markup_item_def assms(1))
  qed
qed

lemma str_grid_without_markup:
  assumes "markup g = None" and "all_cells g \<noteq> []"
  shows "str_grid str_of g = Inl AttributeError"
  unfolding str_grid_def
  by (rule rows_without_markup[OF assms(1)]) (use assms(2) in \<open>simp add: all_cells_def\<close>)

lemma constructed_grid_has_cells:
  assumes "Grid_init nr nc = Inr g0" and "later_op\<^sup>*\<^sup>* g0 (g :: 'v Grid)"
  shows "all_cells g \<noteq> []"
proof -
  from assms(1) have pos: "0 < nr" "0 < nc"
    by (auto simp: Grid_init_def split: if_splits)
  with assms(1) have "g0 = fresh_grid (nat nr) (nat nc)"
    by (simp add: Grid_init_fresh)
  with assms(2) have sk: "skeleton g = skeleton (fresh_grid (nat nr) (nat nc) :: 'v Grid)"
    by (auto intro: later_ops_skeleton)
  note shape = skeleton_fresh_shape[OF sk]
  from shape(1,2,3) pos have len: "0 < length (grid g)" "0 < length (grid g ! 0)"
    by (simp_all add: rectangular_def)
  then have "(0, 0) \<in> set (all_cells g)"
    by (auto simp: all_cells_def each_row_def intro!: bexI[of _ 0])
  then show ?thesis by auto
qed

text \<open>
  Claim C8, as the code has it.  Once \<open>set_markup\<close> has been called, in every link state the
  text of a grid is the line \<open>+\<close> followed by \<open>---+\<close> once per column, and then for each row
  two lines: \<open>|\<close> followed, per cell, by the label and by a blank where the cell is open
  to the east and \<open>|\<close> where it is not; and \<open>+\<close> followed, per cell, by three blanks and
  \<open>+\<close> where the cell is open to the south and by \<open>---+\<close> where it is not.  The label is
  \<open>str\<close> of the markup's value of the cell (the markup's default when the cell has no
  entry, which is one blank for a markup made without a default), padded to three
  characters with the smaller half of the padding on the left; a label of three characters
  or more is kept whole.  A grid with a cell on which \<open>set_markup\<close> has not been called
  raises AttributeError instead, and every grid that the constructor and later operations
  make has a cell.
\<close>

theorem str_grid_layout:
  "(markup g = Some m \<longrightarrow>
      str_grid str_of g =
           Inr (''+'' @ concat (replicate (num_columns g) ''---+'') @ newline @
                concat (map (\<lambda>row.
                    ''|'' @ concat (map (\<lambda>cell. center3 (str_of (getitem_markup m cell))
                                               @ (if open_east g cell then '' '' else ''|'')) row)
                    @ newline @
                    ''+'' @ concat (map (\<lambda>cell. if open_south g cell then ''   +'' else ''---+'') row)
                    @ newline) (each_row g))))
   \<and> (markup g = None \<and> all_cells g \<noteq> [] \<longrightarrow> str_grid str_of g = Inl AttributeError)
   \<and> (\<forall>nr nc g0. Grid_init nr nc = Inr g0 \<and> later_op\<^sup>*\<^sup>* g0 g \<longrightarrow> all_cells g \<noteq> [])
   \<and> (\<forall>cell. map_of (marks m) cell = None \<longrightarrow> getitem_markup m cell = default_value m)
   \<and> default_value Markup_init_blank = '' '' \<and> marks Markup_init_blank = []
   \<and> (\<forall>s. length s \<le> 3 \<longrightarrow> length (center3 s) = 3)
   \<and> (\<forall>s. length s \<ge> 3 \<longrightarrow> center3 s = s)
   \<and> center3 [] = ''   '' \<and> (\<forall>x. center3 [x] = [CHR '' '', x, CHR '' ''])
   \<and> (\<forall>x y. center3 [x, y] = [x, y, CHR '' ''])"
proof (intro conjI)
  show "markup g = Some m \<longrightarrow>
      str_grid str_of g =
           Inr (''+'' @ concat (replicate (num_columns g) ''---+'') @ newline @
                concat (map (\<lambda>row.
                    ''|'' @ concat (map (\<lambda>cell. center3 (str_of (getitem_markup m cell))
                                               @ (if open_east g cell then '' '' else ''|'')) row)
                    @ newline @
                    ''+'' @ concat (map (\<lambda>cell. if open_south g cell then ''   +'' else ''---+'') row)
                    @ newline) (each_row g)))"
    using str_grid_with_markup[of g m str_of] by blast
  show "markup g = None \<and> all_cells g \<noteq> [] \<longrightarrow> str_grid str_of g = Inl AttributeError"
    using str_grid_without_markup[of g str_of] by blast
  show "\<forall>nr nc g0. Grid_init nr nc = Inr g0 \<and> later_op\<^sup>*\<^sup>* g0 g \<longrightarrow> all_cells g \<noteq> []"
    using constructed_grid_has_cells[of _ _ _ g] by blast
  show "\<forall>cell. map_of (marks m) cell = None \<longrightarrow> getitem_markup m cell = default_value m"
    by (simp add: getitem_markup_def)
  show "default_value Markup_init_blank = '' ''" "marks Markup_init_blank = []"
    by (simp_all add: Markup_init_blank_def Markup_init_def)
  show "\<forall>s. length s \<le> 3 \<longrightarrow> length (center3 s) = 3"
    by (simp add: length_center3)
  show "\<forall>s. length s \<ge> 3 \<longrightarrow> center3 s = s"
    by (simp add: center3_def)
  show "center3 [] = ''   ''" "\<forall>x. center3 [x] = [CHR '' '', x, CHR '' '']"
    "\<forall>x y. center3 [x, y] = [x, y, CHR '' '']"
    by (simp_all add: center3_short)
qed

theorem str_grid_layout_witness:
  "markup (set_markup linked_pair_grid (setitem Markup_init_blank (0, 0) ''ab''))
     = Some (setitem Markup_init_blank (0, 0) ''ab'') \<and>
   str_grid id (set_markup linked_pair_grid (setitem Markup_init_blank (0, 0) ''ab''))
     = Inr (''+---+---+'' @ newline @ ''|ab     |'' @ newline @ ''+---+---+'' @ newline) \<and>
   markup (linked_pair_grid :: string Grid) = None \<and>
   all_cells (linked_pair_grid :: string Grid) \<noteq> [] \<and>
   str_grid id (linked_pair_grid :: string Grid) = Inl AttributeError \<and>
   Grid_init 1 2 = Inr (fresh_grid 1 2 :: string Grid) \<and>
   later_op\<^sup>*\<^sup>* (fresh_grid 1 2 :: string Grid) linked_pair_grid"
proof -
  have m: "markup (set_markup linked_pair_grid (setitem Markup_init_blank (0, 0) ''ab''))
     = Some (setitem Markup_init_blank (0, 0) ''ab'')"
    by (simp add: set_markup_def)
  have two: "replicate 2 ''---+'' = [''---+'', ''---+'']"
    by (simp add: numeral_2_eq_2)
  have init: "Grid_init 1 2 = Inr (fresh_grid 1 2 :: string Grid)"
    using Grid_init_fresh[of 1 2] by simp
  have later: "later_op\<^sup>*\<^sup>* (fresh_grid 1 2 :: string Grid) linked_pair_grid"
    by (rule later_linked_pair_grid)
  have none: "markup (linked_pair_grid :: string Grid) = None"
    by (simp add: linked_pair_grid_def)
  have cells: "all_cells (linked_pair_grid :: string Grid) \<noteq> []"
    using str_grid_layout[of "linked_pair_grid :: string Grid"] init later by blast
  have raises: "str_grid id (linked_pair_grid :: string Grid) = Inl AttributeError"
    using str_grid_layout[of "linked_pair_grid :: string Grid" _ id] none cells by blast
  have rendered: "str_grid id (set_markup linked_pair_grid (setitem Markup_init_blank (0, 0) ''ab''))
     = Inr (''+---+---+'' @ newline @ ''|ab     |'' @ newline @ ''+---+---+'' @ newline)"
    using str_grid_layout[of "set_markup linked_pair_grid (setitem Markup_init_blank (0, 0) ''ab'')"
        "setitem Markup_init_blank (0, 0) ''ab''" id] m
    by (simp add: set_markup_def linked_pair_grid_def each_row_def upt_conv_Cons open_east_def
        open_south_def deref_def getitem_markup_def setitem_def Markup_init_def
        Markup_init_blank_def center3_short two)
  from m rendered none cells raises init later show ?thesis by blast
qed

text \<open>
  Claim C8 as stated (the label defaults to blank when no markup has been provided, and
  every label takes three characters) fails: a grid has no attribute \<open>markup\<close> until
  \<open>set_markup\<close> is called, and rendering a fresh grid raises AttributeError; and a label of
  four characters is rendered whole, which makes its cell four characters wide.
\<close>

theorem str_grid_without_markup_raises:
  "Grid_init 1 1 = Inr (fresh_grid 1 1 :: string Grid) \<and>
   str_grid id (fresh_grid 1 1 :: string Grid) = Inl AttributeError \<and>
   str_grid id (set_markup (fresh_grid 1 1) (setitem Markup_init_blank (0, 0) ''1000''))
     = Inr (''+---+'' @ newline @ ''|1000|'' @ newline @ ''+---+'' @ newline)"
  by (simp add: Grid_init_fresh)
    (simp add: fresh_grid_1_1 str_grid_def each_row_def grid_markup_item_def bindE_def
      set_markup_def setitem_def Markup_init_def Markup_init_blank_def getitem_markup_def
      center3_def east_wall_def south_wall_def deref_def)

end
